theory Spec2Isabelle
  imports Main "HOL-Library.Sublist" "HOL-Library.Multiset"
begin

section \<open>Exceptions and the logging state (scraper\_utils.py)\<close>

text \<open>
  The exceptions the modelled code raises or catches. \<open>HTTPError\<close> carries \<open>e.code\<close>,
  \<open>URLError\<close> carries \<open>str(e.reason)\<close>, \<open>TimeoutError\<close> is
  \<open>concurrent.futures.TimeoutError\<close> with its message, \<open>AttributeError\<close> is what the
  lookup of a name that a module does not define raises, and \<open>OtherError\<close> stands for
  every exception class that no handler of the modelled code names.
\<close>

datatype exn =
    HTTPError int
  | URLError string
  | TimeoutError string
  | ValueError string
  | NewsScrapperError string
  | AttributeError string
  | OtherError string

datatype level = DEBUG | INFO | WARNING | ERROR

datatype handler = FileHandler string | StreamHandler

record logger =
  logger_level :: "level option"
  handlers :: "handler list"

text \<open>
  \<open>loggerDict\<close> is \<open>logging.Logger.manager.loggerDict\<close>, \<open>NewsScrapperError_logger\<close> the
  class attribute \<open>NewsScrapperError.logger\<close>, and \<open>emitted\<close> the calls made to
  \<open>Logger.error\<close>, \<open>Logger.warning\<close> and \<open>logging.info\<close>, oldest first, each with the
  name of the logger it was made on.
\<close>

record logging_state =
  loggerDict :: "string \<rightharpoonup> logger"
  NewsScrapperError_logger :: "string option"
  emitted :: "(string \<times> level \<times> string) list"

text \<open>
  \<open>logging.getLogger(name)\<close> for a name without dots, which is all this program uses:
  the logger of that name, made and entered in \<open>loggerDict\<close> when it is not there. (For
  a dotted name the library also enters place holders under the names of the parents;
  the entries of \<open>loggerDict\<close> are loggers here.)
\<close>

definition getLogger :: "string \<Rightarrow> logging_state \<Rightarrow> logger \<times> logging_state" where
  "getLogger name st =
     (case loggerDict st name of
        Some l \<Rightarrow> (l, st)
      | None \<Rightarrow>
          (let l = \<lparr>logger_level = None, handlers = []\<rparr>
           in (l, st\<lparr>loggerDict := (loggerDict st)(name \<mapsto> l)\<rparr>)))"

definition setup_logger ::
  "string \<Rightarrow> level \<Rightarrow> string option \<Rightarrow> bool \<Rightarrow> logging_state \<Rightarrow> logging_state" where
  "setup_logger name lvl logfile to_console st =
     (let (l, st1) = getLogger name st;
          l1 = l\<lparr>logger_level := Some lvl\<rparr>;
          l2 = (case logfile of
                  None \<Rightarrow> l1
                | Some f \<Rightarrow> if f = [] then l1 else l1\<lparr>handlers := handlers l1 @ [FileHandler f]\<rparr>);
          l3 = (if to_console then l2\<lparr>handlers := handlers l2 @ [StreamHandler]\<rparr> else l2)
      in st1\<lparr>loggerDict := (loggerDict st1)(name \<mapsto> l3)\<rparr>)"

definition log_call :: "string \<Rightarrow> level \<Rightarrow> string \<Rightarrow> logging_state \<Rightarrow> logging_state" where
  "log_call name lvl msg st = st\<lparr>emitted := emitted st @ [(name, lvl, msg)]\<rparr>"

definition error_log :: string where
  "error_log = ''error_log''"

definition setup_error_logger :: "logging_state \<Rightarrow> logging_state" where
  "setup_error_logger st =
     (if loggerDict st error_log \<noteq> None
      then st\<lparr>NewsScrapperError_logger := Some error_log\<rparr>
      else (setup_logger error_log WARNING (Some ''error.log'') True st)
             \<lparr>NewsScrapperError_logger := Some error_log\<rparr>)"

text \<open>
  Constructing a \<open>NewsScrapperError\<close> runs its \<open>__init__\<close>: the class logger is set up when
  it is missing, and the message is logged on it as an error.
\<close>

definition NewsScrapperError_init :: "string \<Rightarrow> logging_state \<Rightarrow> logging_state" where
  "NewsScrapperError_init msg st =
     (let st1 = (if NewsScrapperError_logger st = None then setup_error_logger st else st)
      in case NewsScrapperError_logger st1 of
           Some name \<Rightarrow> log_call name ERROR msg st1
         | None \<Rightarrow> st1)"

definition please_set_up :: string where
  "please_set_up = ''Please set up '' @ [CHR 0x27] @ ''error_log'' @ [CHR 0x27] @ '' logger first.''"

definition log_warning :: "string \<Rightarrow> bool \<Rightarrow> logging_state \<Rightarrow> (exn + unit) \<times> logging_state" where
  "log_warning msg is_error st =
     (if loggerDict st error_log = None
      then (Inl (NewsScrapperError please_set_up), NewsScrapperError_init please_set_up st)
      else if is_error then (Inr (), log_call error_log ERROR msg st)
      else (Inr (), log_call error_log WARNING msg st))"

section \<open>extract\_domain\_name\_from\_url\<close>

text \<open>The character class \<open>[a-zA-Z0-9.-]\<close> of \<open>base_url_pattern\<close>.\<close>

definition host_char :: "char \<Rightarrow> bool" where
  "host_char c \<longleftrightarrow>
     c \<in> set (''abcdefghijklmnopqrstuvwxyz'' @ ''ABCDEFGHIJKLMNOPQRSTUVWXYZ'' @ ''0123456789'' @ ''.-'')"

definition strip_prefix :: "string \<Rightarrow> string \<Rightarrow> string option" where
  "strip_prefix p s = (if take (length p) s = p then Some (drop (length p) s) else None)"

text \<open>
  \<open>base_url_pattern.match(link)\<close> for the pattern \<open>^https?://([a-zA-Z0-9.-]+)/\<close>: the
  result is group 1 when the pattern matches at the start of \<open>link\<close>, and \<open>None\<close>
  otherwise. The optional \<open>s\<close> is tried first, as the greedy \<open>?\<close> does; the group is the
  longest run of class characters, which must be non-empty and followed by a slash (a
  shorter run is followed by a class character, never by a slash).
\<close>

definition base_url_match :: "string \<Rightarrow> string option" where
  "base_url_match link =
     (case (case strip_prefix ''https://'' link of
              Some rest \<Rightarrow> Some rest
            | None \<Rightarrow> strip_prefix ''http://'' link) of
        None \<Rightarrow> None
      | Some rest \<Rightarrow>
          (let host = takeWhile host_char rest; tail = dropWhile host_char rest
           in if host \<noteq> [] \<and> take 1 tail = ''/'' then Some host else None))"

text \<open>\<open>str.lstrip(chars)\<close> removes leading characters that occur in \<open>chars\<close>.\<close>

definition lstrip :: "string \<Rightarrow> string \<Rightarrow> string" where
  "lstrip chars s = dropWhile (\<lambda>c. c \<in> set chars) s"

definition not_match_msg :: "string \<Rightarrow> string" where
  "not_match_msg link = ''News link ['' @ link @ ''] does not match base_url_pattern.''"

text \<open>
  The result is \<open>Some\<close> of the returned string, or \<open>None\<close> for Python's \<open>None\<close>, which the
  function returns after the \<open>except AttributeError\<close> branch has logged.
\<close>

definition extract_domain_name_from_url ::
  "string \<Rightarrow> logging_state \<Rightarrow> (exn + string option) \<times> logging_state" where
  "extract_domain_name_from_url link st =
     (case base_url_match link of
        Some g \<Rightarrow> (Inr (Some (lstrip ''www.'' g)), st)
      | None \<Rightarrow>
          (case log_warning (not_match_msg link) False st of
             (Inl e, st') \<Rightarrow> (Inl e, st')
           | (Inr u, st') \<Rightarrow> (Inr None, st')))"

section \<open>The persistence phase (news\_collector.py)\<close>

text \<open>
  The calls the persistence phase makes on its storage collaborators, in the order it
  makes them: opening and closing the connection, and the two write methods of
  \<open>NewsDatabaseAPI\<close>.
\<close>

datatype ('r, 'n) storage_call =
    Open_conn string
  | Store_rule 'r
  | Store_news 'n
  | Close_conn

record ('r, 'n, 'db) storage =
  backend :: 'db
  connected :: bool
  calls :: "('r, 'n) storage_call list"

text \<open>
  \<open>NewsDatabaseAPI\<close> (module \<open>store_data_to_db\<close>) is not part of the sources at hand, so
  its two write methods are parameters: each maps the backend's content to its new
  content and may raise.
\<close>

record ('r, 'n, 'db) db_api =
  store_a_scraping_rule_to_db :: "'r \<Rightarrow> 'db \<Rightarrow> exn option \<times> 'db"
  store_a_rss_news_entry_to_db :: "'n \<Rightarrow> 'db \<Rightarrow> exn option \<times> 'db"

text \<open>
  Modelled from the spec: the context manager \<open>PostgreSqlDB\<close> (module
  \<open>db_operation_api.mydb\<close>, not part of the sources at hand). The spec has "acquire a
  scoped connection/transaction to the backend" and "release the connection on all exit
  paths (success, exception)", and a persistence failure is "surfaced to the caller":
  \<open>__enter__\<close> acquires the connection, \<open>__exit__\<close> releases it and returns a false
  value, so it does not suppress the exception it is given.
\<close>

definition PostgreSqlDB_enter :: "string \<Rightarrow> ('r, 'n, 'db) storage \<Rightarrow> ('r, 'n, 'db) storage" where
  "PostgreSqlDB_enter database s = s\<lparr>connected := True, calls := calls s @ [Open_conn database]\<rparr>"

definition PostgreSqlDB_exit ::
  "exn option \<Rightarrow> ('r, 'n, 'db) storage \<Rightarrow> bool \<times> ('r, 'n, 'db) storage" where
  "PostgreSqlDB_exit exc s = (False, s\<lparr>connected := False, calls := calls s @ [Close_conn]\<rparr>)"

text \<open>The loop \<open>for rule in scraping_rules\<close>: a raising write ends it.\<close>

fun store_rules ::
  "('r, 'n, 'db) db_api \<Rightarrow> 'r list \<Rightarrow> ('r, 'n, 'db) storage \<Rightarrow> exn option \<times> ('r, 'n, 'db) storage" where
  "store_rules api [] s = (None, s)"
| "store_rules api (rule # rest) s =
     (case store_a_scraping_rule_to_db api rule (backend s) of
        (Some e, db') \<Rightarrow> (Some e, s\<lparr>backend := db', calls := calls s @ [Store_rule rule]\<rparr>)
      | (None, db') \<Rightarrow> store_rules api rest (s\<lparr>backend := db', calls := calls s @ [Store_rule rule]\<rparr>))"

text \<open>The loop \<open>for news in news_entries\<close>.\<close>

fun store_news ::
  "('r, 'n, 'db) db_api \<Rightarrow> 'n list \<Rightarrow> ('r, 'n, 'db) storage \<Rightarrow> exn option \<times> ('r, 'n, 'db) storage" where
  "store_news api [] s = (None, s)"
| "store_news api (news # rest) s =
     (case store_a_rss_news_entry_to_db api news (backend s) of
        (Some e, db') \<Rightarrow> (Some e, s\<lparr>backend := db', calls := calls s @ [Store_news news]\<rparr>)
      | (None, db') \<Rightarrow> store_news api rest (s\<lparr>backend := db', calls := calls s @ [Store_news news]\<rparr>))"

text \<open>The body of the \<open>with\<close> block: the rules first, the news entries after them.\<close>

definition write_phases ::
  "('r, 'n, 'db) db_api \<Rightarrow> 'r list \<Rightarrow> 'n list \<Rightarrow> ('r, 'n, 'db) storage
     \<Rightarrow> exn option \<times> ('r, 'n, 'db) storage" where
  "write_phases api scraping_rules news_entries s =
     (case store_rules api scraping_rules s of
        (Some e, s') \<Rightarrow> (Some e, s')
      | (None, s') \<Rightarrow> store_news api news_entries s')"

text \<open>
  \<open>with PostgreSqlDB(database=databse_name) as conn: ...\<close>. Python runs \<open>__exit__\<close> when
  the body ends, normally or by an exception, and re-raises the body's exception unless
  \<open>__exit__\<close> returned a true value.
\<close>

definition save_data_into_database ::
  "string \<Rightarrow> ('r, 'n, 'db) db_api \<Rightarrow> 'r list \<Rightarrow> 'n list \<Rightarrow> ('r, 'n, 'db) storage
     \<Rightarrow> (exn + unit) \<times> ('r, 'n, 'db) storage" where
  "save_data_into_database databse_name api scraping_rules news_entries s =
     (let s1 = PostgreSqlDB_enter databse_name s;
          (raised, s2) = write_phases api scraping_rules news_entries s1;
          (suppress, s3) = PostgreSqlDB_exit raised s2
      in (case raised of
            None \<Rightarrow> Inr ()
          | Some e \<Rightarrow> if suppress then Inr () else Inl e, s3))"

text \<open>The storage calls of one run: those added to the trace by it.\<close>

definition run_calls ::
  "string \<Rightarrow> ('r, 'n, 'db) db_api \<Rightarrow> 'r list \<Rightarrow> 'n list \<Rightarrow> ('r, 'n, 'db) storage
     \<Rightarrow> ('r, 'n) storage_call list" where
  "run_calls databse_name api scraping_rules news_entries s =
     drop (length (calls s))
       (calls (snd (save_data_into_database databse_name api scraping_rules news_entries s)))"

subsection \<open>The rule table as the spec describes it\<close>

text \<open>
  Modelled from the spec: \<open>NewsDatabaseAPI.store_a_scraping_rule_to_db\<close> and
  \<open>store_a_rss_news_entry_to_db\<close> (module \<open>store_data_to_db\<close>, not part of the sources at
  hand). The spec has "for each Rule in order, upsert it (idempotent by identifier ...)"
  and "for each filtered Item, upsert the item and its matched-rule relations". The rule
  table is a list of rows, each a rule under its identifier: a row whose identifier is
  already there is replaced where it stands, a new one is added at the end. The item
  phase writes item and relation rows only; what it does to them is the parameter
  \<open>item_write\<close>, which may raise.
\<close>

record ('k, 'r, 't) tables =
  rule_rows :: "('k \<times> 'r) list"
  item_rows :: 't

fun upsert_row :: "'k \<Rightarrow> 'r \<Rightarrow> ('k \<times> 'r) list \<Rightarrow> ('k \<times> 'r) list" where
  "upsert_row k v [] = [(k, v)]"
| "upsert_row k v ((k', v') # rows) =
     (if k = k' then (k, v) # rows else (k', v') # upsert_row k v rows)"

definition upsert_api ::
  "('r \<Rightarrow> 'k) \<Rightarrow> ('n \<Rightarrow> 't \<Rightarrow> exn option \<times> 't) \<Rightarrow> ('r, 'n, ('k, 'r, 't) tables) db_api" where
  "upsert_api rule_id item_write =
     \<lparr>store_a_scraping_rule_to_db =
        (\<lambda>rule db. (None, db\<lparr>rule_rows := upsert_row (rule_id rule) rule (rule_rows db)\<rparr>)),
      store_a_rss_news_entry_to_db =
        (\<lambda>news db. case item_write news (item_rows db) of (r, t) \<Rightarrow> (r, db\<lparr>item_rows := t\<rparr>))\<rparr>"

section \<open>The concurrent collector (news\_collector.py)\<close>

text \<open>Python's \<open>"%d" % n\<close> for an integer.\<close>

fun str_of_nat :: "nat \<Rightarrow> string" where
  "str_of_nat n =
     (if n < 10 then [''0123456789'' ! n]
      else str_of_nat (n div 10) @ [''0123456789'' ! (n mod 10)])"

declare str_of_nat.simps [simp del]

definition str_of_int :: "int \<Rightarrow> string" where
  "str_of_int i = (if i < 0 then ''-'' @ str_of_nat (nat (- i)) else str_of_nat (nat i))"

definition http_error_msg :: "int \<Rightarrow> string \<Rightarrow> string" where
  "http_error_msg code url =
     ''HTTP Error '' @ str_of_int code @ '' for RSS feed '' @ [CHR 0x27] @ url @ [CHR 0x27]"

definition url_error_msg :: "string \<Rightarrow> string \<Rightarrow> string" where
  "url_error_msg reason url =
     ''URL Error ['' @ reason @ ''] for RSS feed '' @ [CHR 0x27] @ url @ [CHR 0x27]"

definition timeout_msg :: "string \<Rightarrow> string" where
  "timeout_msg m = ''Timeout in news_collector: '' @ m"

definition retrieving_msg :: "nat \<Rightarrow> string" where
  "retrieving_msg n = ''Retrieving '' @ str_of_nat n @ '' RSS feeds concurrently.''"

text \<open>\<open>logging.info\<close> is a call on the root logger.\<close>

definition logging_info :: "string \<Rightarrow> logging_state \<Rightarrow> logging_state" where
  "logging_info msg st = log_call ''root'' INFO msg st"

text \<open>
  The collector's collaborators are parameters. \<open>news_source_registry\<close> lists the
  registered sources (one instance per class, as \<open>NewsSourceClass()\<close> makes them),
  \<open>categories\<close>, \<open>get_rss_url\<close> and \<open>parse_feed\<close> are the sources' attribute and methods,
  and \<open>get_raw_feed_object\<close> is what the future of a task holds once the task is done:
  the raw feed, or the exception the fetch raised, which \<open>future_obj.result()\<close> re-raises.
\<close>

record ('src, 'cat, 'raw, 'feed) sources =
  news_source_registry :: "'src list"
  categories :: "'src \<Rightarrow> 'cat list"
  get_rss_url :: "'src \<Rightarrow> 'cat \<Rightarrow> string"
  get_raw_feed_object :: "'src \<Rightarrow> 'cat \<Rightarrow> exn + 'raw"
  parse_feed :: "'src \<Rightarrow> 'raw \<Rightarrow> 'cat \<Rightarrow> exn + 'feed"

text \<open>
  The two nested loops that submit one task per source and category. \<open>future_map\<close> maps
  each future to its task; a future is the number under which it was submitted.
\<close>

definition submit_tasks :: "('src, 'cat, 'raw, 'feed) sources \<Rightarrow> (nat \<times> 'src \<times> 'cat) list" where
  "submit_tasks env =
     (let tasks = concat (map (\<lambda>news_src. map (Pair news_src) (categories env news_src))
                            (news_source_registry env))
      in zip [0..<length tasks] tasks)"

definition unfinished_msg :: "nat \<Rightarrow> nat \<Rightarrow> string" where
  "unfinished_msg n_pending n_futures =
     str_of_nat n_pending @ '' (of '' @ str_of_nat n_futures @ '') futures unfinished''"

text \<open>
  \<open>futures.as_completed(future_map, timeout=worker_timeout)\<close> is a generator of the
  standard library. When it is first advanced it fixes the deadline, \<open>timeout\<close> after
  that instant, and hands over the futures that are done by then, in the order in which
  a set iterates over them. After that, each time it is advanced with no future in hand
  and futures left, it raises \<open>TimeoutError\<close> when the deadline has passed, and otherwise
  waits for futures to be done and hands over those. When no future is left it is
  exhausted.

  Which futures it hands over, and in which order, depends on the instants at which the
  futures are done and at which the loop comes back for the next future: the pool, the
  network, the scheduler, the time \<open>parse_feed\<close> and the consumer of the generator take.
  The program does not determine them. A \<open>schedule\<close> tells what happens in one run:
  \<open>done_at i\<close> is the instant at which the future submitted as number \<open>i\<close> is done,
  \<open>first_pull\<close> the instant at which the iterator is first advanced, \<open>handed\<close> the futures
  it hands over when it is advanced until it ends, in that order, \<open>timed_out\<close> whether it
  ends by raising \<open>TimeoutError\<close>, and \<open>failed_test\<close> the instant of the test of the
  deadline that fails then. (The loop stops advancing the iterator when its body raises:
  it then comes to an initial part of \<open>handed\<close> only.)
\<close>

record 'task schedule =
  done_at :: "nat \<Rightarrow> nat"
  first_pull :: nat
  handed :: "(nat \<times> 'task) list"
  timed_out :: bool
  failed_test :: nat

text \<open>
  What the library guarantees of a run: every future is handed over at most once; the
  futures done when the iterator is first advanced are handed over, whatever the
  deadline; the iterator raises \<open>TimeoutError\<close> only at a test made after the deadline,
  with futures left; and it is exhausted only when every future has been handed over.
\<close>

definition as_completed_admits :: "(nat \<times> 'task) list \<Rightarrow> nat \<Rightarrow> 'task schedule \<Rightarrow> bool" where
  "as_completed_admits fs timeout sch \<longleftrightarrow>
     distinct (handed sch)
     \<and> set (handed sch) \<subseteq> set fs
     \<and> (\<forall>f\<in>set fs. done_at sch (fst f) \<le> first_pull sch \<longrightarrow> f \<in> set (handed sch))
     \<and> (if timed_out sch
        then first_pull sch + timeout < failed_test sch \<and> \<not> set fs \<subseteq> set (handed sch)
        else set fs \<subseteq> set (handed sch))"

text \<open>
  The futures the iterator gives and what it raises after them (\<open>None\<close> when it is
  exhausted). The message of \<open>TimeoutError\<close> counts the futures not handed over.
\<close>

definition as_completed ::
  "(nat \<times> 'task) list \<Rightarrow> nat \<Rightarrow> 'task schedule \<Rightarrow> (nat \<times> 'task) list \<times> exn option" where
  "as_completed fs timeout sch =
     (handed sch,
      if timed_out sch
      then Some (TimeoutError (unfinished_msg (length fs - length (handed sch)) (length fs)))
      else None)"

text \<open>
  The body of \<open>for future_obj in done_iter\<close>: what it raises (to the enclosing \<open>try\<close>), what
  it yields, and the logging state after it. \<open>HTTPError\<close> is caught before \<open>URLError\<close>, its
  base class; any other exception of the fetch, and any exception of \<open>parse_feed\<close> or
  \<open>log_warning\<close>, leaves the body.
\<close>

definition loop_body ::
  "('src, 'cat, 'raw, 'feed) sources \<Rightarrow> 'src \<times> 'cat \<Rightarrow> logging_state
     \<Rightarrow> exn option \<times> 'feed option \<times> logging_state" where
  "loop_body env task st =
     (case task of (news_src, category) \<Rightarrow>
        (let url = get_rss_url env news_src category
         in case get_raw_feed_object env news_src category of
              Inl (HTTPError code) \<Rightarrow>
                (case log_warning (http_error_msg code url) False st of
                   (Inl e, st') \<Rightarrow> (Some e, None, st')
                 | (Inr u, st') \<Rightarrow> (None, None, st'))
            | Inl (URLError reason) \<Rightarrow>
                (case log_warning (url_error_msg reason url) False st of
                   (Inl e, st') \<Rightarrow> (Some e, None, st')
                 | (Inr u, st') \<Rightarrow> (None, None, st'))
            | Inl e \<Rightarrow> (Some e, None, st)
            | Inr raw_feed \<Rightarrow>
                (case parse_feed env news_src raw_feed category of
                   Inl e \<Rightarrow> (Some e, None, st)
                 | Inr feed \<Rightarrow> (None, Some feed, st))))"

text \<open>
  The loop over \<open>done_iter\<close>, run until the generator is exhausted: the feeds yielded so
  far are \<open>ys\<close>, and \<open>raised\<close> is what the iterator raises after its last future.
\<close>

fun for_done_iter ::
  "('src, 'cat, 'raw, 'feed) sources \<Rightarrow> (nat \<times> 'src \<times> 'cat) list \<Rightarrow> exn option \<Rightarrow> 'feed list
     \<Rightarrow> logging_state \<Rightarrow> exn option \<times> 'feed list \<times> logging_state" where
  "for_done_iter env [] raised ys st = (raised, ys, st)"
| "for_done_iter env (future_obj # rest) raised ys st =
     (case loop_body env (snd future_obj) st of
        (Some e, y, st') \<Rightarrow> (Some e, ys, st')
      | (None, y, st') \<Rightarrow>
          for_done_iter env rest raised (ys @ (case y of None \<Rightarrow> [] | Some feed \<Rightarrow> [feed])) st')"

text \<open>The clause \<open>except futures.TimeoutError as e\<close> around the loop.\<close>

definition except_timeout ::
  "exn option \<times> 'feed list \<times> logging_state \<Rightarrow> exn option \<times> 'feed list \<times> logging_state" where
  "except_timeout r =
     (case r of
        (Some (TimeoutError m), ys, st) \<Rightarrow>
          (case log_warning (timeout_msg m) False st of
             (Inl e, st') \<Rightarrow> (Some e, ys, st')
           | (Inr u, st') \<Rightarrow> (None, ys, st'))
      | (raised, ys, st) \<Rightarrow> (raised, ys, st))"

text \<open>
  The generator, run to its end by its consumer: the exception that leaves it (\<open>None\<close>
  when it returns), the feeds it yields, the logging state, and the calls of
  \<open>get_raw_feed_object\<close> the pool has made by then, as a multiset of tasks.
\<close>

record ('feed, 'task) collected =
  raises :: "exn option"
  yields :: "'feed list"
  logging_after :: logging_state
  fetched :: "'task multiset"

text \<open>
  \<open>ThreadPoolExecutor\<close> refuses a pool without workers with a \<open>ValueError\<close>. Each call of
  \<open>executor.submit\<close> queues one call of the task. The \<open>with\<close> statement leaves the pool by
  \<open>shutdown(wait=True)\<close>, also when the body raises: it cancels nothing and returns when
  every queued task has run, so by then each task has been called once, whether its
  future was handed over or not.
\<close>

definition retrieve_registered_news_by_rss ::
  "('src, 'cat, 'raw, 'feed) sources \<Rightarrow> nat \<Rightarrow> nat \<Rightarrow> ('src \<times> 'cat) schedule \<Rightarrow> logging_state
     \<Rightarrow> ('feed, 'src \<times> 'cat) collected" where
  "retrieve_registered_news_by_rss env num_of_workers worker_timeout sch st =
     (if num_of_workers = 0
      then \<lparr>raises = Some (ValueError ''max_workers must be greater than 0''), yields = [],
            logging_after = st, fetched = {#}\<rparr>
      else
        (let future_map = submit_tasks env;
             st1 = logging_info (retrieving_msg (length future_map)) st;
             (done_iter, stop) = as_completed future_map worker_timeout sch;
             (e, feeds, st2) = except_timeout (for_done_iter env done_iter stop [] st1)
         in \<lparr>raises = e, yields = feeds, logging_after = st2,
              fetched = mset (map snd future_map)\<rparr>))"

text \<open>
  \<open>get_news_entries\<close>: the entries of all the feeds, in a tuple; \<open>feed_entries\<close> is the
  attribute \<open>feed.entries\<close>. An exception that leaves the generator leaves this function.
\<close>

definition get_news_entries ::
  "('src, 'cat, 'raw, 'feed) sources \<Rightarrow> ('feed \<Rightarrow> 'news list) \<Rightarrow> nat \<Rightarrow> nat
     \<Rightarrow> ('src \<times> 'cat) schedule \<Rightarrow> logging_state \<Rightarrow> (exn + 'news list) \<times> logging_state" where
  "get_news_entries env feed_entries num_of_workers worker_timeout sch st =
     (let r = retrieve_registered_news_by_rss env num_of_workers worker_timeout sch st
      in case raises r of
           Some e \<Rightarrow> (Inl e, logging_after r)
         | None \<Rightarrow> (Inr (concat (map feed_entries (yields r))), logging_after r))"

subsection \<open>The outcome of a task, for stating properties\<close>

text \<open>
  A task fails with a classified fetch error when its fetch raises \<open>HTTPError\<close> or
  \<open>URLError\<close>; \<open>failure_warning\<close> is the message the collector logs for it. A task
  succeeds when its fetch returns and \<open>parse_feed\<close> returns: \<open>parsed_feed\<close> is the feed.
\<close>

definition classified_failure :: "('src, 'cat, 'raw, 'feed) sources \<Rightarrow> 'src \<times> 'cat \<Rightarrow> bool" where
  "classified_failure env task =
     (case get_raw_feed_object env (fst task) (snd task) of
        Inl (HTTPError code) \<Rightarrow> True
      | Inl (URLError reason) \<Rightarrow> True
      | Inl e \<Rightarrow> False
      | Inr raw_feed \<Rightarrow> False)"

definition failure_warning :: "('src, 'cat, 'raw, 'feed) sources \<Rightarrow> 'src \<times> 'cat \<Rightarrow> string" where
  "failure_warning env task =
     (case get_raw_feed_object env (fst task) (snd task) of
        Inl (HTTPError code) \<Rightarrow> http_error_msg code (get_rss_url env (fst task) (snd task))
      | Inl (URLError reason) \<Rightarrow> url_error_msg reason (get_rss_url env (fst task) (snd task))
      | Inl e \<Rightarrow> []
      | Inr raw_feed \<Rightarrow> [])"

definition parsed_feed :: "('src, 'cat, 'raw, 'feed) sources \<Rightarrow> 'src \<times> 'cat \<Rightarrow> 'feed option" where
  "parsed_feed env task =
     (case get_raw_feed_object env (fst task) (snd task) of
        Inl e \<Rightarrow> None
      | Inr raw_feed \<Rightarrow>
          (case parse_feed env (fst task) raw_feed (snd task) of
             Inl e \<Rightarrow> None
           | Inr feed \<Rightarrow> Some feed))"

text \<open>
  The exception with which a task ends the loop: that of a fetch that raises neither
  \<open>HTTPError\<close> nor \<open>URLError\<close>, or that of \<open>parse_feed\<close>; \<open>None\<close> for a task that succeeds or
  fails with a classified fetch error.
\<close>

definition task_raises :: "('src, 'cat, 'raw, 'feed) sources \<Rightarrow> 'src \<times> 'cat \<Rightarrow> exn option" where
  "task_raises env task =
     (case get_raw_feed_object env (fst task) (snd task) of
        Inl (HTTPError code) \<Rightarrow> None
      | Inl (URLError reason) \<Rightarrow> None
      | Inl e \<Rightarrow> Some e
      | Inr raw_feed \<Rightarrow>
          (case parse_feed env (fst task) raw_feed (snd task) of
             Inl e \<Rightarrow> Some e
           | Inr feed \<Rightarrow> None))"

section \<open>main\<close>

text \<open>
  \<open>main\<close> takes no argument: the size of the pool and the deadline are the module's
  constants.
\<close>

definition MAX_WORKERS :: nat where
  "MAX_WORKERS = 10"

definition RSS_WORKER_TIMEOUT :: nat where
  "RSS_WORKER_TIMEOUT = 120"

text \<open>The values a call can return, as far as \<open>main\<close> is concerned.\<close>

datatype pyval = PyNone | PyInt int | PyTuple "pyval list"

text \<open>
  The modules \<open>scraping_rules_reader\<close>, \<open>news_data\<close> and \<open>local_news_parsers\<close> are not part
  of the sources at hand: their functions are parameters, and each may raise. News
  entries are objects: \<open>set_rules_to_news_entries\<close> returns nothing and changes their
  attributes, which are kept in a store of type \<open>'h\<close>; \<open>news_repr\<close> is \<open>repr(news)\<close>, which
  reads them. \<open>update_local_news_sources_list\<close> writes files. \<open>elapsed\<close> is the difference
  of the two readings of \<open>timer()\<close>, formatted by \<open>%f\<close>.
\<close>

record ('rule, 'news, 'h) collaborators =
  read_rules_from_file :: "string \<Rightarrow> exn + 'rule list"
  set_rules_to_news_entries :: "'news list \<Rightarrow> 'rule list \<Rightarrow> 'h \<Rightarrow> exn option \<times> 'h"
  update_local_news_sources_list ::
    "'news list \<Rightarrow> string \<Rightarrow> 'h \<Rightarrow> (string \<rightharpoonup> string list)
       \<Rightarrow> exn option \<times> (string \<rightharpoonup> string list)"
  news_repr :: "'h \<Rightarrow> 'news \<Rightarrow> string"
  get_target_news_by_scraping_rules :: "'news list \<Rightarrow> 'rule list \<Rightarrow> 'h \<Rightarrow> exn + 'news list"
  elapsed :: string

text \<open>
  What \<open>main\<close> acts on: the logging module, the database, the attributes of the news
  objects, the files (each a list of lines) and the standard output (a list of lines).
\<close>

record ('rule, 'news, 'db, 'h) world =
  logging :: logging_state
  db :: "('rule, 'news, 'db) storage"
  objects :: 'h
  files :: "string \<rightharpoonup> string list"
  stdout :: "string list"

text \<open>
  The names module \<open>scraper_utils\<close> binds at its top level: its imports, its constant,
  its functions and its class (the names every module has, which start with two
  underscores, are left out). Looking up any other name in the module raises
  \<open>AttributeError\<close>.
\<close>

definition scraper_utils_names :: "string list" where
  "scraper_utils_names =
     [''logging'', ''re'', ''DEFAULT_LOG_FORMAT'', ''log_warning'', ''setup_logger'',
      ''extract_domain_name_from_url'', ''read_json_from_file'', ''NewsScrapperError'']"

definition module_attribute :: "string \<Rightarrow> string list \<Rightarrow> string \<Rightarrow> exn option" where
  "module_attribute module names name =
     (if name \<in> set names then None
      else Some (AttributeError (''module '' @ [CHR 0x27] @ module @ [CHR 0x27]
                   @ '' has no attribute '' @ [CHR 0x27] @ name @ [CHR 0x27])))"

text \<open>
  \<open>logging.basicConfig\<close> sets the level and the handler of the root logger, which is not
  in \<open>loggerDict\<close>; they decide what is printed, not which calls are made.
\<close>

definition basicConfig :: "level \<Rightarrow> logging_state \<Rightarrow> logging_state" where
  "basicConfig lvl st = st"

definition updating_msg :: string where
  "updating_msg = ''Updating '' @ [CHR 0x27] @ ''local_news_sources.txt'' @ [CHR 0x27] @ ''...''"

definition record_msg :: "nat \<Rightarrow> nat \<Rightarrow> string" where
  "record_msg n_target n_entries =
     ''Record '' @ str_of_nat n_target @ '' news out of total '' @ str_of_nat n_entries
       @ '' news.''"

definition done_msg :: "string \<Rightarrow> string" where
  "done_msg seconds = ''Done. Elapsed time: '' @ seconds @ '' seconds''"

text \<open>
  The body of \<open>main\<close>, statement by statement; an exception of any call leaves \<open>main\<close>,
  which has no handler. The arguments of \<open>logging.basicConfig\<close> are evaluated before the
  call: the second is the attribute \<open>default_log_format\<close> of module \<open>scraper_utils\<close>.
  \<open>open('output.txt', 'w')\<close> is taken to succeed. The function ends without a \<open>return\<close>
  statement, so a call that does not raise returns \<open>None\<close>. What the pool and the
  iterator do in the run is the parameter \<open>sch\<close>.
\<close>

definition main ::
  "('rule, 'news, 'h) collaborators \<Rightarrow> ('src, 'cat, 'raw, 'feed) sources \<Rightarrow> ('feed \<Rightarrow> 'news list)
     \<Rightarrow> ('rule, 'news, 'db) db_api \<Rightarrow> ('src \<times> 'cat) schedule \<Rightarrow> ('rule, 'news, 'db, 'h) world
     \<Rightarrow> (exn + pyval) \<times> ('rule, 'news, 'db, 'h) world" where
  "main c env feed_entries api sch w =
     (let lg1 = setup_logger error_log WARNING (Some ''error.log'') False (logging w);
          w1 = w\<lparr>logging := lg1\<rparr>
      in case module_attribute ''scraper_utils'' scraper_utils_names ''default_log_format'' of
           Some e \<Rightarrow> (Inl e, w1)
         | None \<Rightarrow>
      (let lg2 = basicConfig DEBUG lg1
       in case read_rules_from_file c ''test.rule'' of
           Inl e \<Rightarrow> (Inl e, w1\<lparr>logging := lg2\<rparr>)
         | Inr scraping_rules \<Rightarrow>
      (case get_news_entries env feed_entries MAX_WORKERS RSS_WORKER_TIMEOUT sch lg2 of
           (Inl e, lg3) \<Rightarrow> (Inl e, w1\<lparr>logging := lg3\<rparr>)
         | (Inr news_entries, lg3) \<Rightarrow>
      (let w2 = w1\<lparr>logging := lg3\<rparr>
       in case set_rules_to_news_entries c news_entries scraping_rules (objects w2) of
           (Some e, h) \<Rightarrow> (Inl e, w2\<lparr>objects := h\<rparr>)
         | (None, h) \<Rightarrow>
      (let w3 = w2\<lparr>objects := h, logging := logging_info updating_msg lg3\<rparr>
       in case update_local_news_sources_list c news_entries ''local_news_sources.txt'' h
                 (files w3) of
           (Some e, fs) \<Rightarrow> (Inl e, w3\<lparr>files := fs\<rparr>)
         | (None, fs) \<Rightarrow>
      (let w4 = w3\<lparr>files := fs(''output.txt'' \<mapsto> map (news_repr c h) news_entries)\<rparr>
       in case get_target_news_by_scraping_rules c news_entries scraping_rules h of
           Inl e \<Rightarrow> (Inl e, w4)
         | Inr target_news \<Rightarrow>
      (case save_data_into_database ''my_focus_news'' api scraping_rules target_news (db w4) of
           (Inl e, s) \<Rightarrow> (Inl e, w4\<lparr>db := s\<rparr>)
         | (Inr u, s) \<Rightarrow>
             (Inr PyNone,
              w4\<lparr>db := s,
                 logging := logging_info (done_msg (elapsed c))
                   (logging_info (record_msg (length target_news) (length news_entries))
                      (logging w4)),
                 stdout := stdout w4 @ map (news_repr c h) target_news\<rparr>))))))))"

subsection \<open>Three tasks for concrete runs\<close>

text \<open>
  Two sources: the first has two categories, the second one. The fetch of the second
  task answers 404. \<open>broken_sources\<close> differs in the first task, whose fetch raises an
  exception that is neither \<open>HTTPError\<close> nor \<open>URLError\<close>; in \<open>healthy_sources\<close> every fetch
  returns.
\<close>

definition example_sources :: "(nat, nat, string, string) sources" where
  "example_sources =
     \<lparr>news_source_registry = [0, 1],
      categories = (\<lambda>s. if s = 0 then [0, 1] else [0]),
      get_rss_url = (\<lambda>s c. if s = 0 then (if c = 0 then ''http://a.example/world''
                                            else ''http://a.example/tech'')
                             else ''http://b.example/rss''),
      get_raw_feed_object = (\<lambda>s c. if s = 0 \<and> c = 1 then Inl (HTTPError 404)
                                     else Inr ''<rss/>''),
      parse_feed = (\<lambda>s raw c. Inr (if s = 0 then ''feed a'' else ''feed b''))\<rparr>"

definition broken_sources :: "(nat, nat, string, string) sources" where
  "broken_sources =
     example_sources\<lparr>get_raw_feed_object :=
       (\<lambda>s c. if s = 0 \<and> c = 0 then Inl (OtherError ''IncompleteRead'')
               else get_raw_feed_object example_sources s c)\<rparr>"

definition healthy_sources :: "(nat, nat, string, string) sources" where
  "healthy_sources =
     example_sources\<lparr>get_raw_feed_object := (\<lambda>s c. Inr ''<rss/>'')\<rparr>"

subsection \<open>Schedules for concrete runs\<close>

text \<open>
  \<open>prompt_schedule\<close>: the iterator is first advanced at instant 5, the three futures are
  done at 10, 11 and 12 and handed over in that order. \<open>early_schedule\<close> and
  \<open>early_schedule_reversed\<close>: the three futures are done at 1, before the iterator is
  first advanced at 5, and a set iterates over them in one order or in the other.
  \<open>late_schedule\<close>: the iterator is first advanced at 5, the first two futures are done
  at 10 and 11 and the third at 200; with a deadline 120 after 5 the iterator waits for
  the third future until 125 and the test made after that fails.
  \<open>late_failure_schedule\<close>: the same, but it is the second future that is done at 200.
  \<open>busy_schedule\<close>: the first two futures are done at 10 and 11, before the iterator is
  first advanced at 20, so that they are handed over one after the other without a test
  of the deadline, which is at 140 for a timeout of 120; the third future is done at
  100, while the loop and the consumer are at work on the first two, and the loop comes
  back for it at 150.
\<close>

definition prompt_schedule :: "(nat \<times> nat) schedule" where
  "prompt_schedule =
     \<lparr>done_at = (\<lambda>i. 10 + i), first_pull = 5,
      handed = [(0, 0, 0), (1, 0, 1), (2, 1, 0)], timed_out = False, failed_test = 0\<rparr>"

definition early_schedule :: "(nat \<times> nat) schedule" where
  "early_schedule =
     \<lparr>done_at = (\<lambda>i. 1), first_pull = 5,
      handed = [(2, 1, 0), (1, 0, 1), (0, 0, 0)], timed_out = False, failed_test = 0\<rparr>"

definition early_schedule_reversed :: "(nat \<times> nat) schedule" where
  "early_schedule_reversed =
     \<lparr>done_at = (\<lambda>i. 1), first_pull = 5,
      handed = [(0, 0, 0), (1, 0, 1), (2, 1, 0)], timed_out = False, failed_test = 0\<rparr>"

definition late_schedule :: "(nat \<times> nat) schedule" where
  "late_schedule =
     \<lparr>done_at = (\<lambda>i. if i = 2 then 200 else 10 + i), first_pull = 5,
      handed = [(0, 0, 0), (1, 0, 1)], timed_out = True, failed_test = 126\<rparr>"

definition late_failure_schedule :: "(nat \<times> nat) schedule" where
  "late_failure_schedule =
     \<lparr>done_at = (\<lambda>i. if i = 1 then 200 else 10 + i), first_pull = 5,
      handed = [(0, 0, 0), (2, 1, 0)], timed_out = True, failed_test = 126\<rparr>"

definition busy_schedule :: "(nat \<times> nat) schedule" where
  "busy_schedule =
     \<lparr>done_at = (\<lambda>i. if i = 2 then 100 else 10 + i), first_pull = 20,
      handed = [(0, 0, 0), (1, 0, 1)], timed_out = True, failed_test = 150\<rparr>"

subsection \<open>Two logging states for concrete runs\<close>

text \<open>
  The state of a fresh interpreter, and the state after the call
  \<open>setup_logger('error_log', level=logging.WARNING, logfile='error.log', to_console=False)\<close>
  that \<open>main\<close> makes first.
\<close>

definition fresh_logging :: logging_state where
  "fresh_logging = \<lparr>loggerDict = Map.empty, NewsScrapperError_logger = None, emitted = []\<rparr>"

definition main_logging :: logging_state where
  "main_logging = setup_logger error_log WARNING (Some ''error.log'') False fresh_logging"

subsection \<open>Storage doubles for concrete runs\<close>

text \<open>
  The database is the list of what was written, newest first. In \<open>flaky_api\<close> the write of
  news entry 0 raises; in \<open>strict_api\<close> the write of rule 0 raises.
\<close>

definition flaky_api :: "(nat, nat, nat list) db_api" where
  "flaky_api = \<lparr>store_a_scraping_rule_to_db = (\<lambda>r db. (None, r # db)),
                store_a_rss_news_entry_to_db =
                  (\<lambda>n db. if n = 0 then (Some (OtherError ''write failed''), db) else (None, n # db))\<rparr>"

definition empty_storage :: "(nat, nat, nat list) storage" where
  "empty_storage = \<lparr>backend = [], connected = False, calls = []\<rparr>"



section \<open>Properties of the persistence phase\<close>

lemma store_rules_trace:
  "\<exists>rs'. prefix rs' rules \<and>
     calls (snd (store_rules api rules s)) = calls s @ map Store_rule rs' \<and>
     connected (snd (store_rules api rules s)) = connected s \<and>
     (fst (store_rules api rules s) = None \<longrightarrow> rs' = rules)"
proof (induction rules arbitrary: s)
  case Nil
  show ?case by (rule exI [of _ "[]"]) simp
next
  case (Cons rule rest)
  obtain r db' where w: "store_a_scraping_rule_to_db api rule (backend s) = (r, db')"
    by (cases "store_a_scraping_rule_to_db api rule (backend s)")
  show ?case
  proof (cases r)
    case (Some e)
    show ?thesis by (rule exI [of _ "[rule]"]) (simp add: w Some)
  next
    case None
    let ?s1 = "s\<lparr>backend := db', calls := calls s @ [Store_rule rule]\<rparr>"
    have eq: "store_rules api (rule # rest) s = store_rules api rest ?s1"
      using w None by simp
    from Cons.IH [of ?s1] obtain rs' where rs': "prefix rs' rest"
      "calls (snd (store_rules api rest ?s1)) = calls ?s1 @ map Store_rule rs'"
      "connected (snd (store_rules api rest ?s1)) = connected ?s1"
      "fst (store_rules api rest ?s1) = None \<longrightarrow> rs' = rest" by (elim exE conjE)
    show ?thesis
      by (rule exI [of _ "rule # rs'"]) (use rs' in \<open>simp add: w None\<close>)
  qed
qed

lemma store_news_trace:
  "\<exists>ns'. prefix ns' news \<and>
     calls (snd (store_news api news s)) = calls s @ map Store_news ns' \<and>
     connected (snd (store_news api news s)) = connected s"
proof (induction news arbitrary: s)
  case Nil
  show ?case by (rule exI [of _ "[]"]) simp
next
  case (Cons n rest)
  obtain r db' where w: "store_a_rss_news_entry_to_db api n (backend s) = (r, db')"
    by (cases "store_a_rss_news_entry_to_db api n (backend s)")
  show ?case
  proof (cases r)
    case (Some e)
    show ?thesis by (rule exI [of _ "[n]"]) (simp add: w Some)
  next
    case None
    let ?s1 = "s\<lparr>backend := db', calls := calls s @ [Store_news n]\<rparr>"
    have eq: "store_news api (n # rest) s = store_news api rest ?s1"
      using w None by simp
    from Cons.IH [of ?s1] obtain ns' where ns': "prefix ns' rest"
      "calls (snd (store_news api rest ?s1)) = calls ?s1 @ map Store_news ns'"
      "connected (snd (store_news api rest ?s1)) = connected ?s1" by (elim exE conjE)
    show ?thesis
      by (rule exI [of _ "n # ns'"]) (use ns' in \<open>simp add: w None\<close>)
  qed
qed

lemma write_phases_trace:
  "\<exists>rs' ns'. prefix rs' rules \<and> prefix ns' news \<and>
     calls (snd (write_phases api rules news s)) = calls s @ map Store_rule rs' @ map Store_news ns' \<and>
     connected (snd (write_phases api rules news s)) = connected s \<and>
     (ns' \<noteq> [] \<longrightarrow> rs' = rules)"
proof -
  obtain rs' where rs': "prefix rs' rules"
    "calls (snd (store_rules api rules s)) = calls s @ map Store_rule rs'"
    "connected (snd (store_rules api rules s)) = connected s"
    "fst (store_rules api rules s) = None \<longrightarrow> rs' = rules"
    using store_rules_trace [of rules api s] by (elim exE conjE)
  obtain r s1 where sr: "store_rules api rules s = (r, s1)" by (cases "store_rules api rules s")
  show ?thesis
  proof (cases r)
    case (Some e)
    show ?thesis
      by (rule exI [of _ rs'], rule exI [of _ "[]"]) (use rs' sr Some in \<open>simp add: write_phases_def\<close>)
  next
    case None
    obtain ns' where ns': "prefix ns' news"
      "calls (snd (store_news api news s1)) = calls s1 @ map Store_news ns'"
      "connected (snd (store_news api news s1)) = connected s1"
      using store_news_trace [of news api s1] by (elim exE conjE)
    show ?thesis
      by (rule exI [of _ rs'], rule exI [of _ ns']) (use rs' ns' sr None in \<open>simp add: write_phases_def\<close>)
  qed
qed

lemma run_calls_shape:
  "\<exists>rs' ns'. prefix rs' rules \<and> prefix ns' news \<and>
     run_calls name api rules news s =
       Open_conn name # map Store_rule rs' @ map Store_news ns' @ [Close_conn] \<and>
     (ns' \<noteq> [] \<longrightarrow> rs' = rules)"
proof -
  let ?s1 = "PostgreSqlDB_enter name s"
  obtain r s2 where w: "write_phases api rules news ?s1 = (r, s2)"
    by (cases "write_phases api rules news ?s1")
  obtain rs' ns' where t: "prefix rs' rules" "prefix ns' news"
     "calls (snd (write_phases api rules news ?s1)) = calls ?s1 @ map Store_rule rs' @ map Store_news ns'"
     "ns' \<noteq> [] \<longrightarrow> rs' = rules"
    using write_phases_trace [of rules news api ?s1] by (elim exE conjE)
  have c2: "calls s2 = calls s @ Open_conn name # map Store_rule rs' @ map Store_news ns'"
    using t(3) w by (simp add: PostgreSqlDB_enter_def)
  have "calls (snd (save_data_into_database name api rules news s)) = calls s2 @ [Close_conn]"
    using w by (simp add: save_data_into_database_def PostgreSqlDB_exit_def Let_def)
  then have "run_calls name api rules news s =
       Open_conn name # map Store_rule rs' @ map Store_news ns' @ [Close_conn]"
    by (simp add: run_calls_def c2)
  then show ?thesis
    by (intro exI [of _ rs'] exI [of _ ns']) (use t in simp)
qed

text \<open>
  Claim C1. In a run of \<open>save_data_into_database\<close>, whenever a news entry is written
  (call number \<open>i\<close> of the run is a \<open>Store_news\<close>), the run's calls start with opening
  the connection and the writes of all the rules, in their order; the calls after them
  hold no rule write, and the news write stands after them all. So every rule is
  written before any news entry, and never the reverse.
\<close>

theorem rules_written_before_items:
  assumes i: "i < length (run_calls name api rules news s)"
    and n: "run_calls name api rules news s ! i = Store_news n"
  shows "\<exists>post. run_calls name api rules news s = Open_conn name # map Store_rule rules @ post
           \<and> (\<forall>r. Store_rule r \<notin> set post) \<and> length rules < i"
proof -
  obtain rs' ns' where sh:
     "run_calls name api rules news s =
       Open_conn name # map Store_rule rs' @ map Store_news ns' @ [Close_conn]"
     and full: "ns' \<noteq> [] \<longrightarrow> rs' = rules"
    using run_calls_shape [of rules news name api s] by (elim exE conjE)
  let ?tr = "run_calls name api rules news s"
  have "?tr ! i \<in> set ?tr" using i by (rule nth_mem)
  then have "Store_news n \<in> set (Open_conn name # map Store_rule rs' @ map Store_news ns' @ [Close_conn])"
    using n sh by simp
  then have "ns' \<noteq> []" by auto
  then have rs: "rs' = rules" using full by simp
  have tr: "?tr = Open_conn name # map Store_rule rules @ (map Store_news ns' @ [Close_conn])"
    using sh rs by simp
  have le: "length rules < i"
  proof (rule ccontr)
    assume "\<not> length rules < i"
    then have a: "i \<le> length rules" by simp
    show False
    proof (cases i)
      case 0
      then show False using n tr by simp
    next
      case (Suc j)
      then have "j < length rules" using a by simp
      then have "?tr ! i = Store_rule (rules ! j)"
        by (simp add: tr Suc nth_append)
      then show False using n by simp
    qed
  qed
  have np: "\<forall>r. Store_rule r \<notin> set (map Store_news ns' @ [Close_conn])" by auto
  show ?thesis
    by (rule exI [of _ "map Store_news ns' @ [Close_conn]"]) (simp only: tr np le simp_thms)
qed

text \<open>A run on two rules and three news entries, the second of which fails to be written.\<close>

lemma run_calls_example:
  "run_calls ''my_focus_news'' flaky_api [2, 3] [5, 0, 7] empty_storage =
     [Open_conn ''my_focus_news'', Store_rule 2, Store_rule 3, Store_news 5, Store_news 0, Close_conn]"
  by (simp add: run_calls_def save_data_into_database_def write_phases_def flaky_api_def
      empty_storage_def PostgreSqlDB_enter_def PostgreSqlDB_exit_def)

theorem rules_written_before_items_witness:
  "run_calls ''my_focus_news'' flaky_api [2, 3] [5, 0, 7] empty_storage ! 3 = Store_news 5
   \<and> (\<exists>post. run_calls ''my_focus_news'' flaky_api [2, 3] [5, 0, 7] empty_storage =
         Open_conn ''my_focus_news'' # map Store_rule [2, 3] @ post
         \<and> (\<forall>r. Store_rule r \<notin> set post) \<and> length [2::nat, 3] < 3)"
  using rules_written_before_items [of 3 "''my_focus_news''" flaky_api "[2, 3]" "[5, 0, 7]" empty_storage 5]
  by (simp add: run_calls_example)

subsection \<open>Writes that raise and writes that do not\<close>









subsection \<open>Repeating the rule phase\<close>

lemma upsert_row_same: "upsert_row k v (upsert_row k v' t) = upsert_row k v t"
  by (induction t) auto

lemma map_of_upsert_row: "map_of (upsert_row k v t) k' = (if k' = k then Some v else map_of t k')"
  by (induction t) auto

lemma upsert_row_commute:
  "k \<noteq> k' \<Longrightarrow> map_of t k \<noteq> None \<or> map_of t k' \<noteq> None \<Longrightarrow>
     upsert_row k v (upsert_row k' v' t) = upsert_row k' v' (upsert_row k v t)"
  by (induction t) auto

lemma map_of_fold_upsert:
  "x \<in> set rs \<Longrightarrow> map_of (fold (\<lambda>r. upsert_row (rid r) r) rs t) (rid x) \<noteq> None"
proof (induction rs arbitrary: t rule: rev_induct)
  case Nil
  then show ?case by simp
next
  case (snoc r rs)
  then show ?case by (auto simp: map_of_upsert_row)
qed

lemma upsert_absorbs_fold:
  "\<forall>x\<in>set xs. map_of s (rid x) \<noteq> None \<Longrightarrow>
     upsert_row (rid r) r (fold (\<lambda>r. upsert_row (rid r) r) xs (upsert_row (rid r) r s)) =
     upsert_row (rid r) r (fold (\<lambda>r. upsert_row (rid r) r) xs s)"
proof (induction xs arbitrary: s)
  case Nil
  show ?case by (simp add: upsert_row_same)
next
  case (Cons x xs)
  let ?upd = "\<lambda>r. upsert_row (rid r) r"
  have pres: "\<forall>y\<in>set xs. map_of (?upd x s) (rid y) \<noteq> None"
    using Cons.prems by (simp add: map_of_upsert_row)
  show ?case
  proof (cases "rid x = rid r")
    case True
    then have "?upd x (?upd r s) = ?upd x s" by (simp add: upsert_row_same)
    then show ?thesis by simp
  next
    case False
    have "map_of s (rid x) \<noteq> None" using Cons.prems by simp
    then have "?upd x (?upd r s) = ?upd r (?upd x s)"
      using False upsert_row_commute [of "rid x" "rid r" s x r] by simp
    then show ?thesis using Cons.IH [OF pres] by simp
  qed
qed

lemma fold_upsert_idem:
  "fold (\<lambda>r. upsert_row (rid r) r) rs (fold (\<lambda>r. upsert_row (rid r) r) rs t) =
   fold (\<lambda>r. upsert_row (rid r) r) rs t"
proof (induction rs rule: rev_induct)
  case Nil
  show ?case by simp
next
  case (snoc r rs)
  let ?upd = "\<lambda>r. upsert_row (rid r) r"
  let ?t1 = "fold ?upd rs t"
  have pres: "\<forall>x\<in>set rs. map_of ?t1 (rid x) \<noteq> None"
    using map_of_fold_upsert [of _ rs rid t] by blast
  have "fold ?upd (rs @ [r]) (fold ?upd (rs @ [r]) t) = ?upd r (fold ?upd rs (?upd r ?t1))"
    by simp
  also have "\<dots> = ?upd r (fold ?upd rs ?t1)"
    using upsert_absorbs_fold [OF pres] .
  also have "\<dots> = ?upd r ?t1" using snoc.IH by simp
  finally show ?case by simp
qed

lemma store_rules_upsert:
  "store_rules (upsert_api rid iw) rules s =
     (None, s\<lparr>backend := (backend s)\<lparr>rule_rows :=
                 fold (\<lambda>r. upsert_row (rid r) r) rules (rule_rows (backend s))\<rparr>,
              calls := calls s @ map Store_rule rules\<rparr>)"
  by (induction rules arbitrary: s) (simp_all add: upsert_api_def)

lemma store_news_upsert:
  "rule_rows (backend (snd (store_news (upsert_api rid iw) news s))) = rule_rows (backend s)"
proof (induction news arbitrary: s)
  case Nil
  show ?case by simp
next
  case (Cons n news)
  obtain r t where w: "iw n (item_rows (backend s)) = (r, t)"
    by (cases "iw n (item_rows (backend s))")
  show ?case
  proof (cases r)
    case None
    then show ?thesis using w Cons.IH by (simp add: upsert_api_def)
  next
    case (Some e)
    then show ?thesis using w by (simp add: upsert_api_def)
  qed
qed

lemma save_upsert_rule_rows:
  "rule_rows (backend (snd (save_data_into_database name (upsert_api rid iw) rules news s))) =
     fold (\<lambda>r. upsert_row (rid r) r) rules (rule_rows (backend s))"
proof -
  let ?api = "upsert_api rid iw"
  let ?s1 = "PostgreSqlDB_enter name s"
  obtain r s2 where w: "write_phases ?api rules news ?s1 = (r, s2)"
    by (cases "write_phases ?api rules news ?s1")
  have "rule_rows (backend (snd (write_phases ?api rules news ?s1))) =
          fold (\<lambda>r. upsert_row (rid r) r) rules (rule_rows (backend ?s1))"
    by (simp add: write_phases_def store_rules_upsert store_news_upsert)
  then have "rule_rows (backend s2) = fold (\<lambda>r. upsert_row (rid r) r) rules (rule_rows (backend s))"
    using w by (simp add: PostgreSqlDB_enter_def)
  then show ?thesis
    using w by (simp add: save_data_into_database_def PostgreSqlDB_exit_def Let_def)
qed

text \<open>
  Claim C7. With the rule write an upsert keyed by the rule's identifier, a second run
  of the persistence phase on the same rule sequence (and any news entries) leaves the
  rule rows exactly as the first run left them: no row is added or changed.
\<close>

theorem second_run_leaves_rule_rows:
  "rule_rows (backend (snd (save_data_into_database name (upsert_api rid iw) rules news2
       (snd (save_data_into_database name (upsert_api rid iw) rules news1 s))))) =
   rule_rows (backend (snd (save_data_into_database name (upsert_api rid iw) rules news1 s)))"
  by (simp only: save_upsert_rule_rows fold_upsert_idem)

section \<open>Properties of log\_warning and extract\_domain\_name\_from\_url\<close>

lemma slash_not_host: "\<not> host_char CHR ''/''"
  by (simp add: host_char_def)

lemma strip_prefix_Some: "strip_prefix p s = Some r \<longleftrightarrow> s = p @ r"
  by (auto simp: strip_prefix_def split: if_splits) (metis append_take_drop_id)

lemma host_run:
  assumes "\<forall>c\<in>set h. host_char c"
  shows "takeWhile host_char (h @ ''/'' @ rest) = h"
    and "dropWhile host_char (h @ ''/'' @ rest) = ''/'' @ rest"
  using assms by (simp_all add: takeWhile_append2 dropWhile_append2 slash_not_host)

text \<open>
  The embedding of the pattern agrees with the pattern read as a language: a match with
  group \<open>h\<close> is a link that is \<open>http://\<close> or \<open>https://\<close>, then the non-empty run \<open>h\<close> of
  class characters, then a slash, then anything.
\<close>

lemma base_url_match_iff:
  "base_url_match link = Some h \<longleftrightarrow>
     (\<exists>rest. (link = ''http://'' @ h @ ''/'' @ rest \<or> link = ''https://'' @ h @ ''/'' @ rest)
        \<and> h \<noteq> [] \<and> (\<forall>c\<in>set h. host_char c))"
proof
  assume m: "base_url_match link = Some h"
  then obtain r where r: "link = ''https://'' @ r \<or> link = ''http://'' @ r"
    and h: "h = takeWhile host_char r" "h \<noteq> []" "take 1 (dropWhile host_char r) = ''/''"
    by (auto simp: base_url_match_def Let_def strip_prefix_Some split: option.splits if_splits)
  from h(3) obtain t where t: "dropWhile host_char r = ''/'' @ t"
    by (cases "dropWhile host_char r") auto
  have "r = h @ ''/'' @ t" using takeWhile_dropWhile_id [of host_char r] h(1) t by simp
  moreover have "\<forall>c\<in>set h. host_char c" using h(1) by (auto dest: set_takeWhileD)
  ultimately show "\<exists>rest. (link = ''http://'' @ h @ ''/'' @ rest \<or> link = ''https://'' @ h @ ''/'' @ rest)
        \<and> h \<noteq> [] \<and> (\<forall>c\<in>set h. host_char c)" using r h(2) by auto
next
  assume "\<exists>rest. (link = ''http://'' @ h @ ''/'' @ rest \<or> link = ''https://'' @ h @ ''/'' @ rest)
        \<and> h \<noteq> [] \<and> (\<forall>c\<in>set h. host_char c)"
  then obtain rest where l: "link = ''http://'' @ h @ ''/'' @ rest \<or> link = ''https://'' @ h @ ''/'' @ rest"
    and h: "h \<noteq> []" "\<forall>c\<in>set h. host_char c" by blast
  from l show "base_url_match link = Some h"
  proof
    assume "link = ''http://'' @ h @ ''/'' @ rest"
    then show ?thesis using h host_run [OF h(2), of rest]
      by (simp add: base_url_match_def strip_prefix_def Let_def)
  next
    assume "link = ''https://'' @ h @ ''/'' @ rest"
    then show ?thesis using h host_run [OF h(2), of rest]
      by (simp add: base_url_match_def strip_prefix_def Let_def)
  qed
qed

lemma base_url_match_None_iff:
  "base_url_match link = None \<longleftrightarrow>
     \<not> (\<exists>h rest. (link = ''http://'' @ h @ ''/'' @ rest \<or> link = ''https://'' @ h @ ''/'' @ rest)
        \<and> h \<noteq> [] \<and> (\<forall>c\<in>set h. host_char c))"
proof -
  have "base_url_match link \<noteq> None \<longleftrightarrow> (\<exists>h. base_url_match link = Some h)" by auto
  also have "\<dots> \<longleftrightarrow> (\<exists>h rest. (link = ''http://'' @ h @ ''/'' @ rest \<or> link = ''https://'' @ h @ ''/'' @ rest)
        \<and> h \<noteq> [] \<and> (\<forall>c\<in>set h. host_char c))"
    by (simp only: base_url_match_iff)
  finally show ?thesis by blast
qed

lemma main_logging_has_error_log: "loggerDict main_logging error_log \<noteq> None"
  by (simp add: main_logging_def setup_logger_def getLogger_def fresh_logging_def Let_def)

lemma fresh_logging_has_no_error_log: "loggerDict fresh_logging error_log = None"
  by (simp add: fresh_logging_def)

lemma emitted_NewsScrapperError_init:
  "emitted (NewsScrapperError_init msg st) =
     emitted st @
     [(case NewsScrapperError_logger st of None \<Rightarrow> error_log | Some name \<Rightarrow> name, ERROR, msg)]"
  by (cases "NewsScrapperError_logger st")
     (simp_all add: NewsScrapperError_init_def setup_error_logger_def setup_logger_def
        getLogger_def log_call_def Let_def split: option.splits)

text \<open>
  Claim C10, as stated, fails where it says that a link that does not match is logged
  and answered with \<open>None\<close> rather than an exception: with no \<open>error_log\<close> logger set up,
  \<open>log_warning\<close> raises \<open>NewsScrapperError\<close>, the function does not catch it, and no
  warning is logged.
\<close>

theorem extract_domain_name_raises_without_logger:
  "base_url_match ''ftp://example.org/'' = None
   \<and> fst (extract_domain_name_from_url ''ftp://example.org/'' fresh_logging) =
        Inl (NewsScrapperError please_set_up)
   \<and> filter (\<lambda>(name, lvl, msg). lvl = WARNING)
        (emitted (snd (extract_domain_name_from_url ''ftp://example.org/'' fresh_logging))) = []"
  by (simp add: extract_domain_name_from_url_def base_url_match_def strip_prefix_def
      log_warning_def fresh_logging_def NewsScrapperError_init_def setup_error_logger_def
      setup_logger_def getLogger_def log_call_def error_log_def Let_def)

text \<open>
  Claim C10, amended. A link \<open>http://h/...\<close> or \<open>https://h/...\<close>, with \<open>h\<close> a non-empty run
  of letters, digits, dots and hyphens, gives \<open>h\<close> without its leading characters \<open>w\<close> and
  \<open>.\<close> (a strip of characters, not of the prefix \<open>www.\<close>), and logs nothing. A link that
  is not of this form gives \<open>None\<close> after one warning on \<open>error_log\<close> when that logger has
  been set up. When it has not, the call raises \<open>NewsScrapperError\<close> and logs no warning:
  the one record it makes is the error record of the exception, with the exception's
  message.
\<close>

theorem extract_domain_name_from_url_result:
  "((link = ''http://'' @ h @ ''/'' @ rest \<or> link = ''https://'' @ h @ ''/'' @ rest)
      \<and> h \<noteq> [] \<and> (\<forall>c\<in>set h. host_char c) \<longrightarrow>
      extract_domain_name_from_url link st =
        (Inr (Some (dropWhile (\<lambda>c. c = CHR ''w'' \<or> c = CHR ''.'') h)), st))
   \<and> (\<not> (\<exists>h rest. (link = ''http://'' @ h @ ''/'' @ rest \<or> link = ''https://'' @ h @ ''/'' @ rest)
            \<and> h \<noteq> [] \<and> (\<forall>c\<in>set h. host_char c)) \<longrightarrow>
      (loggerDict st error_log \<noteq> None \<longrightarrow>
         extract_domain_name_from_url link st =
           (Inr None, log_call error_log WARNING (not_match_msg link) st))
      \<and> (loggerDict st error_log = None \<longrightarrow>
         extract_domain_name_from_url link st =
           (Inl (NewsScrapperError please_set_up), NewsScrapperError_init please_set_up st)
         \<and> emitted (NewsScrapperError_init please_set_up st) =
             emitted st @
             [(case NewsScrapperError_logger st of None \<Rightarrow> error_log | Some name \<Rightarrow> name,
               ERROR, please_set_up)]))"
proof (intro conjI impI)
  assume "(link = ''http://'' @ h @ ''/'' @ rest \<or> link = ''https://'' @ h @ ''/'' @ rest)
      \<and> h \<noteq> [] \<and> (\<forall>c\<in>set h. host_char c)"
  then have "base_url_match link = Some h"
    unfolding base_url_match_iff by blast
  moreover have "lstrip ''www.'' h = dropWhile (\<lambda>c. c = CHR ''w'' \<or> c = CHR ''.'') h"
    by (simp add: lstrip_def disj_commute)
  ultimately show "extract_domain_name_from_url link st =
        (Inr (Some (dropWhile (\<lambda>c. c = CHR ''w'' \<or> c = CHR ''.'') h)), st)"
    by (simp add: extract_domain_name_from_url_def)
next
  assume "\<not> (\<exists>h rest. (link = ''http://'' @ h @ ''/'' @ rest \<or> link = ''https://'' @ h @ ''/'' @ rest)
            \<and> h \<noteq> [] \<and> (\<forall>c\<in>set h. host_char c))"
  then have n: "base_url_match link = None" by (simp add: base_url_match_None_iff)
  {
    assume "loggerDict st error_log \<noteq> None"
    then show "extract_domain_name_from_url link st =
           (Inr None, log_call error_log WARNING (not_match_msg link) st)"
      using n by (simp add: extract_domain_name_from_url_def log_warning_def)
  }
  {
    assume u: "loggerDict st error_log = None"
    then show "extract_domain_name_from_url link st =
           (Inl (NewsScrapperError please_set_up), NewsScrapperError_init please_set_up st)"
      using n by (simp add: extract_domain_name_from_url_def log_warning_def)
    show "emitted (NewsScrapperError_init please_set_up st) =
             emitted st @
             [(case NewsScrapperError_logger st of None \<Rightarrow> error_log | Some name \<Rightarrow> name,
               ERROR, please_set_up)]"
      by (rule emitted_NewsScrapperError_init)
  }
qed

theorem extract_domain_name_from_url_result_witness:
  "extract_domain_name_from_url ''http://www.w3.org/TR/'' main_logging =
     (Inr (Some ''3.org''), main_logging)
   \<and> extract_domain_name_from_url ''ftp://example.org/'' main_logging =
       (Inr None, log_call error_log WARNING (not_match_msg ''ftp://example.org/'') main_logging)
   \<and> extract_domain_name_from_url ''ftp://example.org/'' fresh_logging =
       (Inl (NewsScrapperError please_set_up), NewsScrapperError_init please_set_up fresh_logging)
   \<and> emitted (NewsScrapperError_init please_set_up fresh_logging) =
       [(error_log, ERROR, please_set_up)]"
  using extract_domain_name_from_url_result
          [of "''http://www.w3.org/TR/''" "''www.w3.org''" "''TR/''" main_logging]
        extract_domain_name_from_url_result
          [of "''ftp://example.org/''" "[]" "[]" main_logging]
        extract_domain_name_from_url_result
          [of "''ftp://example.org/''" "[]" "[]" fresh_logging]
        main_logging_has_error_log fresh_logging_has_no_error_log
  by (simp add: host_char_def fresh_logging_def)

section \<open>Properties of the collector\<close>

lemma loggerDict_log_call: "loggerDict (log_call n l m st) = loggerDict st"
  by (simp add: log_call_def)

lemma emitted_log_call: "emitted (log_call n l m st) = emitted st @ [(n, l, m)]"
  by (simp add: log_call_def)

lemma log_warning_logged:
  "loggerDict st error_log \<noteq> None \<Longrightarrow>
     log_warning msg False st = (Inr (), log_call error_log WARNING msg st)"
  by (simp add: log_warning_def)

lemma log_warning_unset:
  "loggerDict st error_log = None \<Longrightarrow>
     fst (log_warning msg is_error st) = Inl (NewsScrapperError please_set_up)"
  by (simp add: log_warning_def)

text \<open>With the logger set up, the loop body is a function of the task's outcome.\<close>

lemma loop_body_logged:
  assumes "loggerDict st error_log \<noteq> None"
  shows "loop_body env task st =
     (task_raises env task, parsed_feed env task,
      if classified_failure env task
      then log_call error_log WARNING (failure_warning env task) st else st)"
proof (cases task)
  case (Pair news_src category)
  show ?thesis
  proof (cases "get_raw_feed_object env news_src category")
    case (Inr raw)
    then show ?thesis
      by (cases "parse_feed env news_src raw category")
         (simp_all add: Pair loop_body_def task_raises_def parsed_feed_def classified_failure_def)
  next
    case (Inl e)
    then show ?thesis using assms
      by (cases e)
         (simp_all add: Pair loop_body_def task_raises_def parsed_feed_def classified_failure_def
            failure_warning_def log_warning_logged)
  qed
qed

lemma outcome_exclusive:
  "task_raises env task = None \<Longrightarrow> classified_failure env task \<longleftrightarrow> parsed_feed env task = None"
  by (auto simp: task_raises_def classified_failure_def parsed_feed_def
      split: sum.splits exn.splits)


lemma raises_not_classified:
  "task_raises env task = Some e \<Longrightarrow> \<not> classified_failure env task"
  by (auto simp: task_raises_def classified_failure_def split: sum.splits exn.splits)

text \<open>
  With the logger set up, the loop runs through the futures up to the first task that
  raises: the feeds of the tasks before it are yielded, the failures among them are
  logged, one warning each.
\<close>

lemma for_done_iter_logged:
  assumes "loggerDict st error_log \<noteq> None"
  shows "for_done_iter env ds raised ys st =
     ((case dropWhile (\<lambda>f. task_raises env (snd f) = None) ds of
         [] \<Rightarrow> raised
       | f # rest \<Rightarrow> task_raises env (snd f)),
      ys @ List.map_filter (\<lambda>f. parsed_feed env (snd f))
             (takeWhile (\<lambda>f. task_raises env (snd f) = None) ds),
      st\<lparr>emitted := emitted st @
           map (\<lambda>f. (error_log, WARNING, failure_warning env (snd f)))
             (filter (\<lambda>f. classified_failure env (snd f))
                (takeWhile (\<lambda>f. task_raises env (snd f) = None) ds))\<rparr>)"
  using assms
proof (induction ds arbitrary: ys st)
  case Nil
  show ?case by (simp add: List.map_filter_simps)
next
  case (Cons f ds)
  let ?st' = "if classified_failure env (snd f)
      then log_call error_log WARNING (failure_warning env (snd f)) st else st"
  have lb: "loop_body env (snd f) st = (task_raises env (snd f), parsed_feed env (snd f), ?st')"
    using Cons.prems by (rule loop_body_logged)
  show ?case
  proof (cases "task_raises env (snd f)")
    case (Some e)
    then show ?thesis using raises_not_classified [OF Some]
      by (simp add: lb List.map_filter_simps)
  next
    case None
    have l': "loggerDict ?st' error_log \<noteq> None"
      using Cons.prems by (simp add: loggerDict_log_call)
    show ?thesis
      using None Cons.IH [OF l']
      by (cases "parsed_feed env (snd f)")
         (simp_all add: lb List.map_filter_simps log_call_def)
  qed
qed

lemma except_timeout_logged:
  "loggerDict st error_log \<noteq> None \<Longrightarrow>
     except_timeout (raised, ys, st) =
       (case raised of
          Some (TimeoutError m) \<Rightarrow> (None, ys, log_call error_log WARNING (timeout_msg m) st)
        | _ \<Rightarrow> (raised, ys, st))"
  by (simp add: except_timeout_def log_warning_logged split: option.splits exn.splits)

lemma except_timeout_yields: "fst (snd (except_timeout r)) = fst (snd r)"
  by (cases r) (auto simp: except_timeout_def split: option.splits exn.splits prod.splits sum.splits)

lemma loggerDict_logging_info: "loggerDict (logging_info m st) = loggerDict st"
  by (simp add: logging_info_def loggerDict_log_call)

lemma map_filter_length:
  "length (List.map_filter g xs) = length (filter (\<lambda>x. g x \<noteq> None) xs)"
  by (simp add: List.map_filter_def)

lemma log_warning_set:
  "loggerDict st error_log \<noteq> None \<Longrightarrow>
     log_warning msg is_error st =
       (Inr (), log_call error_log (if is_error then ERROR else WARNING) msg st)"
  by (simp add: log_warning_def)

lemma log_warning_unset_result:
  "loggerDict st error_log = None \<Longrightarrow>
     log_warning msg is_error st =
       (Inl (NewsScrapperError please_set_up), NewsScrapperError_init please_set_up st)"
  by (simp add: log_warning_def)

lemma loop_body_unset:
  assumes "loggerDict st error_log = None" and "task_raises env task = None"
  shows "loop_body env task st =
     (if classified_failure env task
      then (Some (NewsScrapperError please_set_up), None,
            NewsScrapperError_init please_set_up st)
      else (None, parsed_feed env task, st))"
proof (cases task)
  case (Pair news_src category)
  show ?thesis
  proof (cases "get_raw_feed_object env news_src category")
    case (Inr raw)
    then show ?thesis using assms(2)
      by (cases "parse_feed env news_src raw category")
         (simp_all add: Pair loop_body_def task_raises_def parsed_feed_def classified_failure_def)
  next
    case (Inl e)
    then show ?thesis using assms
      by (cases e)
         (simp_all add: Pair loop_body_def task_raises_def parsed_feed_def classified_failure_def
            log_warning_unset_result)
  qed
qed

lemma for_done_iter_unset:
  assumes "loggerDict st error_log = None"
    and "\<forall>f\<in>set ds. task_raises env (snd f) = None"
  shows "for_done_iter env ds raised ys st =
     (if \<exists>f\<in>set ds. classified_failure env (snd f)
      then (Some (NewsScrapperError please_set_up),
            ys @ List.map_filter (\<lambda>f. parsed_feed env (snd f))
                   (takeWhile (\<lambda>f. \<not> classified_failure env (snd f)) ds),
            NewsScrapperError_init please_set_up st)
      else (raised, ys @ List.map_filter (\<lambda>f. parsed_feed env (snd f)) ds, st))"
  using assms
proof (induction ds arbitrary: ys)
  case Nil
  show ?case by (simp add: List.map_filter_simps)
next
  case (Cons f ds)
  have r: "task_raises env (snd f) = None" using Cons.prems(2) by simp
  have rest: "\<forall>f\<in>set ds. task_raises env (snd f) = None" using Cons.prems(2) by simp
  note lb = loop_body_unset [OF Cons.prems(1) r]
  show ?case
  proof (cases "classified_failure env (snd f)")
    case True
    then show ?thesis by (simp add: lb List.map_filter_simps)
  next
    case False
    show ?thesis
      using False Cons.IH [OF Cons.prems(1) rest]
      by (cases "parsed_feed env (snd f)") (simp_all add: lb List.map_filter_simps)
  qed
qed




subsection \<open>Runs of the generator\<close>

lemma distinct_submit_tasks: "distinct (submit_tasks env)"
  by (simp add: submit_tasks_def Let_def distinct_zipI1)

lemma retrieve_run:
  "0 < W \<Longrightarrow>
     retrieve_registered_news_by_rss env W T sch st =
       (case except_timeout
               (for_done_iter env (handed sch) (snd (as_completed (submit_tasks env) T sch)) []
                  (logging_info (retrieving_msg (length (submit_tasks env))) st)) of
          (e, feeds, st2) \<Rightarrow>
            \<lparr>raises = e, yields = feeds, logging_after = st2,
             fetched = mset (map snd (submit_tasks env))\<rparr>)"
  by (simp add: retrieve_registered_news_by_rss_def Let_def as_completed_def split: prod.splits)

lemma fetched_once:
  "0 < W \<Longrightarrow>
     fetched (retrieve_registered_news_by_rss env W T sch st) = mset (map snd (submit_tasks env))"
  by (simp add: retrieve_run split: prod.splits)

text \<open>
  With the logger set up and no task among those handed over raising, the generator
  returns: it yields the feeds of the tasks handed over that succeed, in the order in
  which they are handed over, logs one warning for each that fails, and one more when
  the iterator raises \<open>TimeoutError\<close>.
\<close>

lemma run_logged:
  assumes logger: "loggerDict st error_log \<noteq> None"
    and W: "0 < W"
    and outcomes: "\<forall>f\<in>set (handed sch). task_raises env (snd f) = None"
  shows "retrieve_registered_news_by_rss env W T sch st =
     \<lparr>raises = None,
      yields = List.map_filter (\<lambda>f. parsed_feed env (snd f)) (handed sch),
      logging_after = st\<lparr>emitted := emitted st @
        (''root'', INFO, retrieving_msg (length (submit_tasks env))) #
        map (\<lambda>f. (error_log, WARNING, failure_warning env (snd f)))
          (filter (\<lambda>f. classified_failure env (snd f)) (handed sch)) @
        (if timed_out sch
         then [(error_log, WARNING,
                timeout_msg (unfinished_msg (length (submit_tasks env) - length (handed sch))
                  (length (submit_tasks env))))]
         else [])\<rparr>,
      fetched = mset (map snd (submit_tasks env))\<rparr>"
proof -
  let ?ok = "\<lambda>f. task_raises env (snd f) = None"
  let ?st1 = "logging_info (retrieving_msg (length (submit_tasks env))) st"
  let ?st2 = "?st1\<lparr>emitted := emitted ?st1 @
           map (\<lambda>f. (error_log, WARNING, failure_warning env (snd f)))
             (filter (\<lambda>f. classified_failure env (snd f)) (handed sch))\<rparr>"
  have l1: "loggerDict ?st1 error_log \<noteq> None"
    using logger by (simp add: loggerDict_logging_info)
  have l2: "loggerDict ?st2 error_log \<noteq> None" using l1 by simp
  have tw: "takeWhile ?ok (handed sch) = handed sch" using outcomes by simp
  have dw: "dropWhile ?ok (handed sch) = []" using outcomes by simp
  have it: "for_done_iter env (handed sch) stop [] ?st1 =
      (stop, List.map_filter (\<lambda>f. parsed_feed env (snd f)) (handed sch), ?st2)" for stop
    unfolding for_done_iter_logged [OF l1] tw dw by simp
  show ?thesis
    unfolding retrieve_run [OF W] it except_timeout_logged [OF l2]
    by (simp add: as_completed_def logging_info_def log_call_def)
qed

lemma admits_all_handed:
  assumes "as_completed_admits (submit_tasks env) T sch" and "\<not> timed_out sch"
  shows "mset (handed sch) = mset (submit_tasks env)"
proof -
  have "distinct (handed sch)" and "set (handed sch) = set (submit_tasks env)"
    using assms by (auto simp: as_completed_admits_def)
  then show ?thesis
    using distinct_submit_tasks [of env] by (simp add: set_eq_iff_mset_eq_distinct)
qed

lemma admits_left:
  assumes "as_completed_admits fs T sch" and "timed_out sch"
  shows "length (handed sch) < length fs"
proof -
  have d: "distinct (handed sch)" and s: "set (handed sch) \<subseteq> set fs"
    and n: "\<not> set fs \<subseteq> set (handed sch)"
    using assms by (auto simp: as_completed_admits_def)
  have "set (handed sch) \<subset> set fs" using s n by blast
  then have "card (set (handed sch)) < card (set fs)" by (simp add: psubset_card_mono)
  moreover have "card (set (handed sch)) = length (handed sch)" using d by (rule distinct_card)
  moreover have "card (set fs) \<le> length fs" by (rule card_length)
  ultimately show ?thesis by simp
qed

subsection \<open>Concrete runs\<close>

lemma example_tasks: "submit_tasks example_sources = [(0, 0, 0), (1, 0, 1), (2, 1, 0)]"
  by code_simp

lemma example_outcomes:
  "list_all (\<lambda>f. task_raises example_sources (snd f) = None) (submit_tasks example_sources)"
  "length (filter (\<lambda>f. classified_failure example_sources (snd f))
     (submit_tasks example_sources)) = 1"
  by code_simp+

lemma schedules_admitted:
  "as_completed_admits (submit_tasks example_sources) 120 prompt_schedule"
  "as_completed_admits (submit_tasks example_sources) 120 early_schedule"
  "as_completed_admits (submit_tasks example_sources) 120 early_schedule_reversed"
  "as_completed_admits (submit_tasks example_sources) 300 early_schedule_reversed"
  "as_completed_admits (submit_tasks example_sources) 120 late_schedule"
  "as_completed_admits (submit_tasks example_sources) 120 late_failure_schedule"
  "as_completed_admits (submit_tasks example_sources) 120 busy_schedule"
  by code_simp+

text \<open>
  Claim C3, as stated, fails in three ways, each with three tasks of which exactly one
  fails with a classified fetch error, and a pool of ten workers. With the logger set
  up and a deadline of 120, when the third task is done after the deadline, one feed is
  yielded, not two, and the third task is neither yielded nor logged as a failure. The
  same happens when the third task is done at 100, before the deadline at 140, but the
  loop comes back for it at 150. And when the three tasks are handed over but there is no
  \<open>error_log\<close> logger, the failure is not logged as a warning, the generator raises, and
  again one feed is yielded.
\<close>

theorem tasks_lost_by_deadline_or_missing_logger:
  "length (submit_tasks example_sources) = 3
   \<and> length (filter (\<lambda>f. classified_failure example_sources (snd f))
        (submit_tasks example_sources)) = 1
   \<and> list_all (\<lambda>f. task_raises example_sources (snd f) = None) (submit_tasks example_sources)
   \<and> as_completed_admits (submit_tasks example_sources) 120 late_schedule
   \<and> yields (retrieve_registered_news_by_rss example_sources 10 120 late_schedule main_logging)
        = [''feed a'']
   \<and> as_completed_admits (submit_tasks example_sources) 120 busy_schedule
   \<and> list_all (\<lambda>f. done_at busy_schedule (fst f) \<le> first_pull busy_schedule + 120)
        (submit_tasks example_sources)
   \<and> yields (retrieve_registered_news_by_rss example_sources 10 120 busy_schedule main_logging)
        = [''feed a'']
   \<and> map (\<lambda>r. snd (snd r))
        (emitted (logging_after
           (retrieve_registered_news_by_rss example_sources 10 120 busy_schedule main_logging)))
        = [''Retrieving 3 RSS feeds concurrently.'',
           http_error_msg 404 ''http://a.example/tech'',
           timeout_msg ''1 (of 3) futures unfinished'']
   \<and> as_completed_admits (submit_tasks example_sources) 120 prompt_schedule
   \<and> raises (retrieve_registered_news_by_rss example_sources 10 120 prompt_schedule fresh_logging)
        = Some (NewsScrapperError please_set_up)
   \<and> yields (retrieve_registered_news_by_rss example_sources 10 120 prompt_schedule fresh_logging)
        = [''feed a'']
   \<and> filter (\<lambda>r. fst (snd r) = WARNING)
        (emitted (logging_after
           (retrieve_registered_news_by_rss example_sources 10 120 prompt_schedule fresh_logging)))
        = []"
  by code_simp

text \<open>
  Claim C3, amended. Take a pool with at least one worker and the \<open>error_log\<close> logger set
  up. When the iterator hands over every one of the \<open>N\<close> futures, so that the deadline
  does not end the run, and each task either succeeds or fails with a classified fetch
  error, \<open>k\<close> of them failing, then, in whatever order the futures are handed over, the
  generator returns without an exception, yields the \<open>N - k\<close> feeds of the tasks that
  succeed, in the order in which they are handed over, and logs \<open>k\<close> warnings, one for
  each task that fails, and nothing else but the line that announces the run. Every
  task is handed over once, and it either fails or has a feed, never both and never
  neither.
\<close>

theorem every_task_yields_or_logs:
  assumes logger: "loggerDict st error_log \<noteq> None"
    and W: "0 < W"
    and admits: "as_completed_admits (submit_tasks env) T sch"
    and full: "\<not> timed_out sch"
    and outcomes: "\<forall>f\<in>set (submit_tasks env). task_raises env (snd f) = None"
  shows "retrieve_registered_news_by_rss env W T sch st =
     \<lparr>raises = None,
      yields = List.map_filter (\<lambda>f. parsed_feed env (snd f)) (handed sch),
      logging_after = st\<lparr>emitted := emitted st @
        (''root'', INFO, retrieving_msg (length (submit_tasks env))) #
        map (\<lambda>f. (error_log, WARNING, failure_warning env (snd f)))
          (filter (\<lambda>f. classified_failure env (snd f)) (handed sch))\<rparr>,
      fetched = mset (map snd (submit_tasks env))\<rparr>
   \<and> mset (handed sch) = mset (submit_tasks env)
   \<and> length (yields (retrieve_registered_news_by_rss env W T sch st)) =
       length (submit_tasks env)
         - length (filter (\<lambda>f. classified_failure env (snd f)) (submit_tasks env))
   \<and> length (filter (\<lambda>r. fst (snd r) = WARNING)
        (drop (length (emitted st))
           (emitted (logging_after (retrieve_registered_news_by_rss env W T sch st))))) =
       length (filter (\<lambda>f. classified_failure env (snd f)) (submit_tasks env))
   \<and> (\<forall>f\<in>set (submit_tasks env).
         classified_failure env (snd f) \<longleftrightarrow> parsed_feed env (snd f) = None)"
proof -
  let ?fs = "submit_tasks env"
  let ?hs = "handed sch"
  let ?failing = "\<lambda>f. classified_failure env (snd f)"
  let ?r = "retrieve_registered_news_by_rss env W T sch st"
  have m: "mset ?hs = mset ?fs" using admits full by (rule admits_all_handed)
  have sets: "set ?hs = set ?fs" using m by (rule mset_eq_setD)
  have out: "\<forall>f\<in>set ?hs. task_raises env (snd f) = None" using outcomes sets by simp
  have run: "?r =
     \<lparr>raises = None,
      yields = List.map_filter (\<lambda>f. parsed_feed env (snd f)) ?hs,
      logging_after = st\<lparr>emitted := emitted st @
        (''root'', INFO, retrieving_msg (length ?fs)) #
        map (\<lambda>f. (error_log, WARNING, failure_warning env (snd f))) (filter ?failing ?hs)\<rparr>,
      fetched = mset (map snd ?fs)\<rparr>"
    unfolding run_logged [OF logger W out] using full by simp
  have "mset (filter ?failing ?hs) = mset (filter ?failing ?fs)"
    by (simp only: mset_filter m)
  then have k: "length (filter ?failing ?hs) = length (filter ?failing ?fs)"
    by (rule mset_eq_length)
  have len: "length ?hs = length ?fs" using m by (rule mset_eq_length)
  have same: "filter (\<lambda>f. parsed_feed env (snd f) \<noteq> None) ?hs = filter (\<lambda>f. \<not> ?failing f) ?hs"
  proof (rule filter_cong [OF refl])
    fix f assume "f \<in> set ?hs"
    then have "task_raises env (snd f) = None" using out by simp
    from outcome_exclusive [OF this]
    show "(parsed_feed env (snd f) \<noteq> None) = (\<not> ?failing f)" by simp
  qed
  have c: "length (filter (\<lambda>f. \<not> ?failing f) ?hs) + length (filter ?failing ?hs) = length ?hs"
    using sum_length_filter_compl [of ?failing ?hs] by simp
  have n1: "length (List.map_filter (\<lambda>f. parsed_feed env (snd f)) ?hs) =
      length (filter (\<lambda>f. \<not> ?failing f) ?hs)"
    by (simp only: map_filter_length same)
  have yr: "yields ?r = List.map_filter (\<lambda>f. parsed_feed env (snd f)) ?hs"
    by (simp add: run)
  have n: "length (yields ?r) = length ?fs - length (filter ?failing ?fs)"
    using c k len unfolding yr n1 by simp
  have "filter (\<lambda>r. fst (snd r) = WARNING)
          ((''root'', INFO, retrieving_msg (length ?fs)) #
           map (\<lambda>f. (error_log, WARNING, failure_warning env (snd f))) (filter ?failing ?hs))
        = map (\<lambda>f. (error_log, WARNING, failure_warning env (snd f))) (filter ?failing ?hs)"
    by (simp add: filter_map o_def)
  then have w: "length (filter (\<lambda>r. fst (snd r) = WARNING)
        (drop (length (emitted st)) (emitted (logging_after ?r)))) =
       length (filter ?failing ?fs)"
    unfolding run using k by simp
  have x: "\<forall>f\<in>set ?fs. ?failing f \<longleftrightarrow> parsed_feed env (snd f) = None"
    using outcomes outcome_exclusive by blast
  from run m n w x show ?thesis by (intro conjI)
qed

theorem every_task_yields_or_logs_witness:
  "loggerDict main_logging error_log \<noteq> None \<and> (0::nat) < 10
   \<and> as_completed_admits (submit_tasks example_sources) 120 early_schedule
   \<and> \<not> timed_out early_schedule
   \<and> yields (retrieve_registered_news_by_rss example_sources 10 120 early_schedule main_logging)
       = [''feed b'', ''feed a'']
   \<and> length (filter (\<lambda>r. fst (snd r) = WARNING)
        (drop (length (emitted main_logging))
           (emitted (logging_after (retrieve_registered_news_by_rss example_sources 10 120
              early_schedule main_logging))))) = 1"
proof -
  have W: "(0::nat) < 10" by simp
  have full: "\<not> timed_out early_schedule" by code_simp
  have outcomes:
    "\<forall>f\<in>set (submit_tasks example_sources). task_raises example_sources (snd f) = None"
    using example_outcomes(1) by (simp only: list_all_iff)
  have y: "List.map_filter (\<lambda>f. parsed_feed example_sources (snd f)) (handed early_schedule)
      = [''feed b'', ''feed a'']" by code_simp
  note t = every_task_yields_or_logs
    [OF main_logging_has_error_log W schedules_admitted(2) full outcomes]
  from t have "retrieve_registered_news_by_rss example_sources 10 120 early_schedule main_logging =
     \<lparr>raises = None, yields = [''feed b'', ''feed a''],
      logging_after = main_logging\<lparr>emitted := emitted main_logging @
        (''root'', INFO, retrieving_msg (length (submit_tasks example_sources))) #
        map (\<lambda>f. (error_log, WARNING, failure_warning example_sources (snd f)))
          (filter (\<lambda>f. classified_failure example_sources (snd f)) (handed early_schedule))\<rparr>,
      fetched = mset (map snd (submit_tasks example_sources))\<rparr>"
    unfolding y by (rule conjunct1)
  then have ys: "yields (retrieve_registered_news_by_rss example_sources 10 120 early_schedule
      main_logging) = [''feed b'', ''feed a'']"
    by simp
  from t have "length (filter (\<lambda>r. fst (snd r) = WARNING)
        (drop (length (emitted main_logging))
           (emitted (logging_after (retrieve_registered_news_by_rss example_sources 10 120
              early_schedule main_logging))))) =
       length (filter (\<lambda>f. classified_failure example_sources (snd f))
         (submit_tasks example_sources))"
    by (elim conjE)
  then have ws: "length (filter (\<lambda>r. fst (snd r) = WARNING)
        (drop (length (emitted main_logging))
           (emitted (logging_after (retrieve_registered_news_by_rss example_sources 10 120
              early_schedule main_logging))))) = 1"
    unfolding example_outcomes(2) .
  from main_logging_has_error_log W schedules_admitted(2) full ys ws show ?thesis
    by (intro conjI)
qed

subsection \<open>The deadline\<close>

text \<open>
  Claim C4, as stated, fails in three ways, each with three tasks and a deadline of 120
  that ends the run with the third future not handed over. With every fetch returning
  but no \<open>error_log\<close> logger, the handler of the deadline calls \<open>log_warning\<close>, which
  raises \<open>NewsScrapperError\<close>: the exception leaves the generator and no warning is logged.
  With the logger set up, a first task whose fetch raises an exception that is neither
  \<open>HTTPError\<close> nor \<open>URLError\<close> ends the generator with that exception before the deadline
  is looked at, and no deadline warning is logged. And a task that is done at 100,
  before the deadline at 140, but for which the loop comes back at 150, is not yielded.
\<close>

theorem deadline_run_raises_or_drops:
  "as_completed_admits (submit_tasks healthy_sources) 120 late_schedule
   \<and> raises (retrieve_registered_news_by_rss healthy_sources 10 120 late_schedule fresh_logging)
        = Some (NewsScrapperError please_set_up)
   \<and> filter (\<lambda>r. fst (snd r) = WARNING)
        (emitted (logging_after
           (retrieve_registered_news_by_rss healthy_sources 10 120 late_schedule fresh_logging)))
        = []
   \<and> as_completed_admits (submit_tasks broken_sources) 120 late_schedule
   \<and> raises (retrieve_registered_news_by_rss broken_sources 10 120 late_schedule main_logging)
        = Some (OtherError ''IncompleteRead'')
   \<and> filter (\<lambda>r. prefix ''Timeout'' (snd (snd r)))
        (emitted (logging_after
           (retrieve_registered_news_by_rss broken_sources 10 120 late_schedule main_logging)))
        = []
   \<and> as_completed_admits (submit_tasks example_sources) 120 busy_schedule
   \<and> done_at busy_schedule 2 = 100 \<and> first_pull busy_schedule + 120 = 140
   \<and> parsed_feed example_sources (1, 0) = Some ''feed b''
   \<and> yields (retrieve_registered_news_by_rss example_sources 10 120 busy_schedule main_logging)
        = [''feed a'']"
  by code_simp

text \<open>
  Claim C4, amended. Take a pool with at least one worker and the \<open>error_log\<close> logger set
  up. When the iterator ends the run by \<open>TimeoutError\<close>, at a test made after the deadline
  with futures not handed over, and each task handed over either succeeds or fails with
  a classified fetch error, the generator returns without an exception. It yields the
  feeds of the tasks handed over that succeed and logs one warning for each that fails;
  the futures done when the iterator was first advanced are among those handed over.
  After that it logs the deadline warning, the one warning of the run whose message
  starts with \<open>Timeout\<close>, which counts the futures not handed over. These are neither
  yielded nor logged one by one, and no task is called again or cancelled: when the
  generator returns the pool has called every submitted task once.
\<close>

theorem deadline_logged_once:
  assumes logger: "loggerDict st error_log \<noteq> None"
    and W: "0 < W"
    and admits: "as_completed_admits (submit_tasks env) T sch"
    and fired: "timed_out sch"
    and outcomes: "\<forall>f\<in>set (handed sch). task_raises env (snd f) = None"
  shows "retrieve_registered_news_by_rss env W T sch st =
     \<lparr>raises = None,
      yields = List.map_filter (\<lambda>f. parsed_feed env (snd f)) (handed sch),
      logging_after = st\<lparr>emitted := emitted st @
        (''root'', INFO, retrieving_msg (length (submit_tasks env))) #
        map (\<lambda>f. (error_log, WARNING, failure_warning env (snd f)))
          (filter (\<lambda>f. classified_failure env (snd f)) (handed sch)) @
        [(error_log, WARNING,
          timeout_msg (unfinished_msg (length (submit_tasks env) - length (handed sch))
            (length (submit_tasks env))))]\<rparr>,
      fetched = mset (map snd (submit_tasks env))\<rparr>
   \<and> length (filter (\<lambda>r. prefix ''Timeout'' (snd (snd r)))
        (drop (length (emitted st))
           (emitted (logging_after (retrieve_registered_news_by_rss env W T sch st))))) = 1
   \<and> 0 < length (submit_tasks env) - length (handed sch)
   \<and> (\<forall>f\<in>set (submit_tasks env).
         done_at sch (fst f) \<le> first_pull sch \<longrightarrow>
         (case parsed_feed env (snd f) of
            Some feed \<Rightarrow> feed \<in> set (yields (retrieve_registered_news_by_rss env W T sch st))
          | None \<Rightarrow> (error_log, WARNING, failure_warning env (snd f))
                     \<in> set (emitted (logging_after
                          (retrieve_registered_news_by_rss env W T sch st)))))
   \<and> (\<forall>f\<in>set (handed sch).
         case parsed_feed env (snd f) of
           Some feed \<Rightarrow> feed \<in> set (yields (retrieve_registered_news_by_rss env W T sch st))
         | None \<Rightarrow> (error_log, WARNING, failure_warning env (snd f))
                    \<in> set (emitted (logging_after
                         (retrieve_registered_news_by_rss env W T sch st))))"
proof -
  let ?fs = "submit_tasks env"
  let ?hs = "handed sch"
  let ?failing = "\<lambda>f. classified_failure env (snd f)"
  let ?m = "unfinished_msg (length ?fs - length ?hs) (length ?fs)"
  let ?warns = "map (\<lambda>f. (error_log, WARNING, failure_warning env (snd f))) (filter ?failing ?hs)"
  let ?r = "retrieve_registered_news_by_rss env W T sch st"
  have run: "?r =
     \<lparr>raises = None,
      yields = List.map_filter (\<lambda>f. parsed_feed env (snd f)) ?hs,
      logging_after = st\<lparr>emitted := emitted st @
        (''root'', INFO, retrieving_msg (length ?fs)) # ?warns @
        [(error_log, WARNING, timeout_msg ?m)]\<rparr>,
      fetched = mset (map snd ?fs)\<rparr>"
    unfolding run_logged [OF logger W outcomes] using fired by simp
  have nt: "filter (\<lambda>r. prefix ''Timeout'' (snd (snd r))) ?warns = []"
    by (auto simp: filter_empty_conv failure_warning_def classified_failure_def
        http_error_msg_def url_error_msg_def split: sum.splits exn.splits)
  have "filter (\<lambda>r. prefix ''Timeout'' (snd (snd r)))
          ((''root'', INFO, retrieving_msg (length ?fs)) # ?warns @ [(error_log, WARNING, timeout_msg ?m)])
        = [(error_log, WARNING, timeout_msg ?m)]"
    using nt by (simp add: retrieving_msg_def timeout_msg_def)
  then have one: "length (filter (\<lambda>r. prefix ''Timeout'' (snd (snd r)))
        (drop (length (emitted st)) (emitted (logging_after ?r)))) = 1"
    by (simp add: run)
  have left: "0 < length ?fs - length ?hs"
    using admits_left [OF admits fired] by simp
  have early: "\<forall>f\<in>set ?fs. done_at sch (fst f) \<le> first_pull sch \<longrightarrow> f \<in> set ?hs"
    using admits by (simp add: as_completed_admits_def)
  have each: "\<forall>f\<in>set ?hs.
         case parsed_feed env (snd f) of
           Some feed \<Rightarrow> feed \<in> set (yields ?r)
         | None \<Rightarrow> (error_log, WARNING, failure_warning env (snd f))
                    \<in> set (emitted (logging_after ?r))"
  proof
    fix f assume f: "f \<in> set ?hs"
    then have tr: "task_raises env (snd f) = None" using outcomes by simp
    show "case parsed_feed env (snd f) of
           Some feed \<Rightarrow> feed \<in> set (yields ?r)
         | None \<Rightarrow> (error_log, WARNING, failure_warning env (snd f))
                    \<in> set (emitted (logging_after ?r))"
    proof (cases "parsed_feed env (snd f)")
      case (Some feed)
      have "feed \<in> set (List.map_filter (\<lambda>f. parsed_feed env (snd f)) ?hs)"
        unfolding List.map_filter_def using f Some by force
      then show ?thesis by (simp add: Some run)
    next
      case None
      then have "?failing f" using outcome_exclusive [OF tr] by simp
      then have "(error_log, WARNING, failure_warning env (snd f)) \<in> set ?warns"
        using f by simp
      then show ?thesis by (simp add: None run)
    qed
  qed
  have first: "\<forall>f\<in>set ?fs. done_at sch (fst f) \<le> first_pull sch \<longrightarrow>
         (case parsed_feed env (snd f) of
            Some feed \<Rightarrow> feed \<in> set (yields ?r)
          | None \<Rightarrow> (error_log, WARNING, failure_warning env (snd f))
                     \<in> set (emitted (logging_after ?r)))"
    using early each by blast
  from run one left first each show ?thesis by (intro conjI)
qed

theorem deadline_logged_once_witness:
  "loggerDict main_logging error_log \<noteq> None \<and> (0::nat) < 10
   \<and> as_completed_admits (submit_tasks example_sources) 120 late_schedule
   \<and> timed_out late_schedule
   \<and> raises (retrieve_registered_news_by_rss example_sources 10 120 late_schedule main_logging)
       = None
   \<and> yields (retrieve_registered_news_by_rss example_sources 10 120 late_schedule main_logging)
       = [''feed a'']
   \<and> length (filter (\<lambda>r. prefix ''Timeout'' (snd (snd r)))
        (drop (length (emitted main_logging))
           (emitted (logging_after (retrieve_registered_news_by_rss example_sources 10 120
              late_schedule main_logging))))) = 1"
proof -
  have W: "(0::nat) < 10" by simp
  have fired: "timed_out late_schedule" by code_simp
  have "list_all (\<lambda>f. task_raises example_sources (snd f) = None) (handed late_schedule)"
    by code_simp
  then have outcomes:
    "\<forall>f\<in>set (handed late_schedule). task_raises example_sources (snd f) = None"
    by (simp only: list_all_iff)
  have y: "List.map_filter (\<lambda>f. parsed_feed example_sources (snd f)) (handed late_schedule)
      = [''feed a'']" by code_simp
  note t = deadline_logged_once
    [OF main_logging_has_error_log W schedules_admitted(5) fired outcomes, unfolded y]
  from t have run: "retrieve_registered_news_by_rss example_sources 10 120 late_schedule
      main_logging =
     \<lparr>raises = None, yields = [''feed a''],
      logging_after = main_logging\<lparr>emitted := emitted main_logging @
        (''root'', INFO, retrieving_msg (length (submit_tasks example_sources))) #
        map (\<lambda>f. (error_log, WARNING, failure_warning example_sources (snd f)))
          (filter (\<lambda>f. classified_failure example_sources (snd f)) (handed late_schedule)) @
        [(error_log, WARNING,
          timeout_msg (unfinished_msg
            (length (submit_tasks example_sources) - length (handed late_schedule))
            (length (submit_tasks example_sources))))]\<rparr>,
      fetched = mset (map snd (submit_tasks example_sources))\<rparr>"
    by (rule conjunct1)
  have r: "raises (retrieve_registered_news_by_rss example_sources 10 120 late_schedule
      main_logging) = None"
    by (simp add: run)
  have ys: "yields (retrieve_registered_news_by_rss example_sources 10 120 late_schedule
      main_logging) = [''feed a'']"
    by (simp add: run)
  from t have one: "length (filter (\<lambda>r. prefix ''Timeout'' (snd (snd r)))
        (drop (length (emitted main_logging))
           (emitted (logging_after (retrieve_registered_news_by_rss example_sources 10 120
              late_schedule main_logging))))) = 1"
    by (elim conjE)
  from main_logging_has_error_log W schedules_admitted(5) fired r ys one show ?thesis
    by (intro conjI)
qed

subsection \<open>A task that fails with a classified fetch error\<close>





subsection \<open>Runs without the logger\<close>

lemma run_unset:
  assumes logger: "loggerDict st error_log = None"
    and W: "0 < W"
    and outcomes: "\<forall>f\<in>set (handed sch). task_raises env (snd f) = None"
    and logs: "(\<exists>f\<in>set (handed sch). classified_failure env (snd f)) \<or> timed_out sch"
  shows "raises (retrieve_registered_news_by_rss env W T sch st) =
           Some (NewsScrapperError please_set_up)"
proof -
  let ?fs = "submit_tasks env"
  let ?st1 = "logging_info (retrieving_msg (length ?fs)) st"
  have l1: "loggerDict ?st1 error_log = None"
    using logger by (simp add: loggerDict_logging_info)
  note it = for_done_iter_unset [OF l1 outcomes]
  show ?thesis
  proof (cases "\<exists>f\<in>set (handed sch). classified_failure env (snd f)")
    case True
    then show ?thesis
      unfolding retrieve_run [OF W] it by (simp add: except_timeout_def)
  next
    case False
    with logs have "timed_out sch" by simp
    then obtain m where pen: "snd (as_completed ?fs T sch) = Some (TimeoutError m)"
      by (simp add: as_completed_def)
    show ?thesis
      unfolding retrieve_run [OF W] it pen using False l1
      by (simp add: except_timeout_def log_warning_unset_result)
  qed
qed

text \<open>
  Claim C9. Without a logger named \<open>error_log\<close>, \<open>log_warning\<close> raises
  \<open>NewsScrapperError\<close>, whatever the message and the flag. With that logger, it returns
  after logging the message on it, as an error when \<open>is_error\<close> is true and as a warning
  otherwise. So the collector needs the logger wherever it logs a failure: without it,
  a run in which a task handed over fails with a classified fetch error, or which the
  iterator ends by \<open>TimeoutError\<close>, ends with \<open>NewsScrapperError\<close> (the tasks handed over
  raising nothing of their own).
\<close>

theorem log_warning_requires_error_log:
  "(loggerDict st error_log = None \<longrightarrow>
      fst (log_warning msg is_error st) = Inl (NewsScrapperError please_set_up))
   \<and> (loggerDict st error_log \<noteq> None \<longrightarrow>
      log_warning msg is_error st =
        (Inr (), log_call error_log (if is_error then ERROR else WARNING) msg st))
   \<and> (loggerDict st error_log = None \<and> 0 < W
      \<and> (\<forall>f\<in>set (handed sch). task_raises env (snd f) = None)
      \<and> ((\<exists>f\<in>set (handed sch). classified_failure env (snd f)) \<or> timed_out sch) \<longrightarrow>
      raises (retrieve_registered_news_by_rss env W T sch st) =
        Some (NewsScrapperError please_set_up))"
proof (intro conjI impI)
  assume "loggerDict st error_log = None"
  then show "fst (log_warning msg is_error st) = Inl (NewsScrapperError please_set_up)"
    by (rule log_warning_unset)
next
  assume "loggerDict st error_log \<noteq> None"
  then show "log_warning msg is_error st =
        (Inr (), log_call error_log (if is_error then ERROR else WARNING) msg st)"
    by (rule log_warning_set)
next
  assume a: "loggerDict st error_log = None \<and> 0 < W
      \<and> (\<forall>f\<in>set (handed sch). task_raises env (snd f) = None)
      \<and> ((\<exists>f\<in>set (handed sch). classified_failure env (snd f)) \<or> timed_out sch)"
  show "raises (retrieve_registered_news_by_rss env W T sch st) =
        Some (NewsScrapperError please_set_up)"
    by (rule run_unset) (use a in simp_all)
qed

theorem log_warning_requires_error_log_witness:
  "fst (log_warning ''HTTP Error'' False fresh_logging) = Inl (NewsScrapperError please_set_up)
   \<and> log_warning ''HTTP Error'' True main_logging =
       (Inr (), log_call error_log ERROR ''HTTP Error'' main_logging)
   \<and> log_warning ''HTTP Error'' False main_logging =
       (Inr (), log_call error_log WARNING ''HTTP Error'' main_logging)
   \<and> raises (retrieve_registered_news_by_rss example_sources 10 120 prompt_schedule fresh_logging)
       = Some (NewsScrapperError please_set_up)
   \<and> raises (retrieve_registered_news_by_rss healthy_sources 10 120 late_schedule fresh_logging)
       = Some (NewsScrapperError please_set_up)"
proof -
  have W: "(0::nat) < 10" by simp
  have "list_all (\<lambda>f. task_raises example_sources (snd f) = None) (handed prompt_schedule)"
    by code_simp
  then have o1: "\<forall>f\<in>set (handed prompt_schedule). task_raises example_sources (snd f) = None"
    by (simp only: list_all_iff)
  have "list_ex (\<lambda>f. classified_failure example_sources (snd f)) (handed prompt_schedule)"
    by code_simp
  then have c1: "\<exists>f\<in>set (handed prompt_schedule). classified_failure example_sources (snd f)"
    by (simp only: list_ex_iff)
  have "list_all (\<lambda>f. task_raises healthy_sources (snd f) = None) (handed late_schedule)"
    by code_simp
  then have o2: "\<forall>f\<in>set (handed late_schedule). task_raises healthy_sources (snd f) = None"
    by (simp only: list_all_iff)
  have l2: "timed_out late_schedule" by code_simp
  note n = fresh_logging_has_no_error_log
  note y = main_logging_has_error_log
  have a: "fst (log_warning ''HTTP Error'' False fresh_logging) =
      Inl (NewsScrapperError please_set_up)"
    using log_warning_requires_error_log [where st = fresh_logging and msg = "''HTTP Error''"
        and is_error = False and W = 10 and env = example_sources and T = 120
        and sch = prompt_schedule] n
    by (elim conjE) (rule mp)
  have b: "log_warning ''HTTP Error'' True main_logging =
       (Inr (), log_call error_log ERROR ''HTTP Error'' main_logging)"
    using log_warning_requires_error_log [where st = main_logging and msg = "''HTTP Error''"
        and is_error = True and W = 10 and env = example_sources and T = 120
        and sch = prompt_schedule] y
    by simp
  have c: "log_warning ''HTTP Error'' False main_logging =
       (Inr (), log_call error_log WARNING ''HTTP Error'' main_logging)"
    using log_warning_requires_error_log [where st = main_logging and msg = "''HTTP Error''"
        and is_error = False and W = 10 and env = example_sources and T = 120
        and sch = prompt_schedule] y
    by simp
  have d: "raises (retrieve_registered_news_by_rss example_sources 10 120 prompt_schedule
       fresh_logging) = Some (NewsScrapperError please_set_up)"
    using log_warning_requires_error_log [where st = fresh_logging and msg = "''HTTP Error''"
        and is_error = False and W = 10 and env = example_sources and T = 120
        and sch = prompt_schedule] n W o1 c1
    by blast
  have e: "raises (retrieve_registered_news_by_rss healthy_sources 10 120 late_schedule
       fresh_logging) = Some (NewsScrapperError please_set_up)"
    using log_warning_requires_error_log [where st = fresh_logging and msg = "''HTTP Error''"
        and is_error = False and W = 10 and env = healthy_sources and T = 120
        and sch = late_schedule] n W o2 l2
    by blast
  from a b c d e show ?thesis by (intro conjI)
qed

subsection \<open>Two runs with different deadlines\<close>





section \<open>Properties of main\<close>

lemma default_log_format_missing:
  "module_attribute ''scraper_utils'' scraper_utils_names ''default_log_format'' =
     Some (AttributeError (''module '' @ [CHR 0x27] @ ''scraper_utils'' @ [CHR 0x27]
             @ '' has no attribute '' @ [CHR 0x27] @ ''default_log_format'' @ [CHR 0x27]))"
  by (simp add: module_attribute_def scraper_utils_names_def)

text \<open>
  Claim C6. \<open>main\<close> does not get as far as the pipeline. The second argument of
  \<open>logging.basicConfig\<close> is \<open>scraper_utils.default_log_format\<close>, and the module binds
  \<open>DEFAULT_LOG_FORMAT\<close>, not \<open>default_log_format\<close>: whatever the collaborators, the sources,
  the database and the schedule, \<open>main\<close> raises \<open>AttributeError\<close> when it has set up the
  \<open>error_log\<close> logger and done nothing else. It returns no value, so no pair of counts.
\<close>

theorem main_raises_AttributeError:
  "main c env feed_entries api sch w =
     (Inl (AttributeError (''module '' @ [CHR 0x27] @ ''scraper_utils'' @ [CHR 0x27]
             @ '' has no attribute '' @ [CHR 0x27] @ ''default_log_format'' @ [CHR 0x27])),
      w\<lparr>logging := setup_logger error_log WARNING (Some ''error.log'') False (logging w)\<rparr>)
   \<and> ''DEFAULT_LOG_FORMAT'' \<in> set scraper_utils_names
   \<and> ''default_log_format'' \<notin> set scraper_utils_names
   \<and> fst (main c env feed_entries api sch w) \<noteq> Inr v"
proof -
  have m: "main c env feed_entries api sch w =
     (Inl (AttributeError (''module '' @ [CHR 0x27] @ ''scraper_utils'' @ [CHR 0x27]
             @ '' has no attribute '' @ [CHR 0x27] @ ''default_log_format'' @ [CHR 0x27])),
      w\<lparr>logging := setup_logger error_log WARNING (Some ''error.log'') False (logging w)\<rparr>)"
    by (simp add: main_def Let_def default_log_format_missing)
  have n: "''DEFAULT_LOG_FORMAT'' \<in> set scraper_utils_names"
    "''default_log_format'' \<notin> set scraper_utils_names"
    by (simp_all add: scraper_utils_names_def)
  have r: "fst (main c env feed_entries api sch w) \<noteq> Inr v" by (simp add: m)
  from m n r show ?thesis by (intro conjI)
qed

end
